(* ===== verification/Prelude_Rust.thy ===== *)
theory Prelude_Rust
  imports Main "HOL-Library.Word" "HOL-Library.Code_Target_Numeral"
begin

text \<open>
  The part of Rust and of its standard library that every component of the relay shares.

  \<^item> Machine integers: \<open>u16\<close>, \<open>u32\<close>, \<open>u64\<close> and \<open>usize\<close> (a 64-bit target) are words;
    \<open>checked_add\<close>, \<open>checked_mul\<close> and \<open>u32::try_from\<close> return an option.
  \<^item> Strings: a \<open>str\<close> is the list of its UTF-8 bytes, so that \<open>len\<close> is the length of the
    list; \<open>chars\<close> is the division of the bytes into scalar values, on which \<open>trim\<close> and
    \<open>char::is_whitespace\<close> work.
  \<^item> Results: \<open>Result<T, E>\<close> is the sum \<open>'e + 'a\<close> with the error on the left.
  \<^item> \<open>Duration\<close>: a number of nanoseconds, ordered, with the saturating addition.

  The \<open>named_theorems\<close> collections below carry the automation of the component theories:
  \<open>rust_str\<close> (string operations), \<open>rust_int\<close> (machine integers).
\<close>

named_theorems rust_str \<open>equations of the string operations\<close>
named_theorems rust_int \<open>machine integers read as natural numbers\<close>

type_synonym bytes = "char list"
type_synonym rstr = "char list"
type_synonym u8 = "8 word"
type_synonym u16 = "16 word"
type_synonym u32 = "32 word"
type_synonym u64 = "64 word"
type_synonym usize = "64 word"

subsection \<open>Machine integers\<close>

definition checked_add :: "usize \<Rightarrow> usize \<Rightarrow> usize option" where
  "checked_add a b = (if unat a + unat b < 2 ^ 64 then Some (a + b) else None)"

definition checked_mul :: "usize \<Rightarrow> usize \<Rightarrow> usize option" where
  "checked_mul a b = (if unat a * unat b < 2 ^ 64 then Some (a * b) else None)"

definition u32_try_from :: "nat \<Rightarrow> u32 option" where
  "u32_try_from n = (if n < 2 ^ 32 then Some (word_of_nat n) else None)"

lemma unat_usize_less [simp]: "unat (a :: usize) < 18446744073709551616"
  using unsigned_less [of a] by simp

lemma checked_add_SomeD [rust_int]:
  "checked_add a b = Some c \<Longrightarrow> unat c = unat a + unat b"
  by (auto simp: checked_add_def unat_word_ariths split: if_splits)

lemma checked_add_eq_None [rust_int]:
  "checked_add a b = None \<longleftrightarrow> 2 ^ 64 \<le> unat a + unat b"
  by (auto simp: checked_add_def)

lemma checked_mul_SomeD [rust_int]:
  "checked_mul a b = Some c \<Longrightarrow> unat c = unat a * unat b"
  by (auto simp: checked_mul_def unat_word_ariths split: if_splits)

lemma u32_try_from_SomeD [rust_int]: "u32_try_from n = Some w \<Longrightarrow> unat w = n"
  by (auto simp: u32_try_from_def unat_of_nat take_bit_eq_mod split: if_splits)

lemma u32_try_from_small: "n < 2 ^ 32 \<Longrightarrow> u32_try_from n = Some (word_of_nat n)"
  by (simp add: u32_try_from_def)

subsection \<open>Results\<close>

text \<open>The question-mark operator: an error is returned at once, a value goes on.\<close>

definition try_bind :: "'e + 'a \<Rightarrow> ('a \<Rightarrow> 'e + 'b) \<Rightarrow> 'e + 'b" where
  "try_bind r f = (case r of Inl e \<Rightarrow> Inl e | Inr x \<Rightarrow> f x)"

lemma try_bind_simps [simp]:
  "try_bind (Inl e) f = Inl e"
  "try_bind (Inr x) f = f x"
  by (simp_all add: try_bind_def)

lemma try_bind_eq_Inr:
  "try_bind r f = Inr y \<longleftrightarrow> (\<exists>x. r = Inr x \<and> f x = Inr y)"
  by (cases r) auto

definition map_err :: "('e \<Rightarrow> 'f) \<Rightarrow> 'e + 'a \<Rightarrow> 'f + 'a" where
  "map_err g r = map_sum g id r"

lemma map_err_simps [simp]:
  "map_err g (Inl e) = Inl (g e)"
  "map_err g (Inr x) = Inr x"
  by (simp_all add: map_err_def)

lemma map_err_eq_Inr [simp]: "map_err g r = Inr x \<longleftrightarrow> r = Inr x"
  by (cases r) auto

definition ok_or :: "'e \<Rightarrow> 'a option \<Rightarrow> 'e + 'a" where
  "ok_or e r = (case r of None \<Rightarrow> Inl e | Some x \<Rightarrow> Inr x)"

lemma ok_or_simps [simp]:
  "ok_or e None = Inl e"
  "ok_or e (Some x) = Inr x"
  by (simp_all add: ok_or_def)

lemma ok_or_eq_Inr [simp]: "ok_or e r = Inr x \<longleftrightarrow> r = Some x"
  by (cases r) auto

definition is_err :: "'e + 'a \<Rightarrow> bool" where
  "is_err r = (case r of Inl _ \<Rightarrow> True | Inr _ \<Rightarrow> False)"

lemma is_err_simps [simp]: "is_err (Inl e)" "\<not> is_err (Inr x)"
  by (simp_all add: is_err_def)

subsection \<open>Durations\<close>

datatype duration = Duration (as_nanos: nat)

instantiation duration :: linorder
begin

definition less_eq_duration :: "duration \<Rightarrow> duration \<Rightarrow> bool" where
  "less_eq_duration a b \<longleftrightarrow> as_nanos a \<le> as_nanos b"

definition less_duration :: "duration \<Rightarrow> duration \<Rightarrow> bool" where
  "less_duration a b \<longleftrightarrow> as_nanos a < as_nanos b"

instance
  by standard (auto simp: less_eq_duration_def less_duration_def intro: duration.expand)

end

definition duration_MAX :: duration where
  "duration_MAX = Duration ((2 ^ 64 - 1) * 10 ^ 9 + 999999999)"

definition from_secs :: "u64 \<Rightarrow> duration" where
  "from_secs s = Duration (unat s * 10 ^ 9)"

definition saturating_add :: "duration \<Rightarrow> duration \<Rightarrow> duration" where
  "saturating_add a b = min duration_MAX (Duration (as_nanos a + as_nanos b))"

lemma from_secs_le_MAX: "from_secs s \<le> duration_MAX"
proof -
  have "unat s \<le> 18446744073709551615"
    using unat_usize_less [of s] by linarith
  then have "unat s * 10 ^ 9 \<le> 18446744073709551615 * 10 ^ 9"
    by (rule mult_le_mono1)
  then show ?thesis
    by (simp add: from_secs_def duration_MAX_def less_eq_duration_def)
qed

lemma saturating_add_mono: "a \<le> duration_MAX \<Longrightarrow> a \<le> saturating_add a b"
  by (auto simp: saturating_add_def less_eq_duration_def min_def)

lemma saturating_add_le: "as_nanos (saturating_add a b) \<le> as_nanos a + as_nanos b"
  by (auto simp: saturating_add_def less_eq_duration_def min_def)

subsection \<open>Timeouts\<close>

text \<open>
  A future that is awaited under a timeout never resolves, or resolves after some time. The
  result of \<open>timeout\<close> is the time spent and the value, \<open>None\<close> when the time was over.
\<close>

datatype 'a timed = Never | After duration 'a

fun timeout :: "duration \<Rightarrow> 'a timed \<Rightarrow> nat \<times> 'a option" where
  "timeout maximum Never = (as_nanos maximum, None)"
| "timeout maximum (After t x) =
     (if t \<le> maximum then (as_nanos t, Some x) else (as_nanos maximum, None))"

lemma timeout_time: "fst (timeout d f) \<le> as_nanos d"
  by (cases f) (auto simp: less_eq_duration_def)

lemma timeout_Some: "snd (timeout d f) = Some x \<longleftrightarrow> (\<exists>t \<le> d. f = After t x)"
  by (cases f) auto

end
