(* ===== verification/Admission.thy ===== *)
theory Admission
  imports Prelude_Rust "HOL-Library.Multiset"
begin

text \<open>
  What the four counters of the program have in common: a request is admitted or refused at
  once, and an admitted one is released exactly once. The relay limiter (two semaphores), the
  shutdown gate of the relay (a counter under a mutex), the table of pending requests and the
  connection slots of the listener are the four instances; each has its own states and
  requests, and its own reading \<open>holds\<close> of "these requests are inside".

  \<open>adm_run\<close> runs any sequence of entries and exits, so that a fact about it is a fact about
  every interleaving of the calls that make them. The semaphore and the watch channel of
  \<open>tokio::sync\<close> are parameters, records of the operations the code calls, with what their
  documentation promises as \<open>semaphore_laws\<close> and \<open>watch_laws\<close>.
\<close>

subsection \<open>Runs of entries and exits\<close>

datatype 'r adm_event = Enter 'r | Exit 'r

fun adm_step ::
  "('s \<Rightarrow> 'r \<Rightarrow> 's option) \<Rightarrow> ('s \<Rightarrow> 'r \<Rightarrow> 's) \<Rightarrow> 's \<times> 'r multiset \<Rightarrow> 'r adm_event \<Rightarrow> ('s \<times> 'r multiset) option" where
  "adm_step admit release (s, M) (Enter r) =
     (case admit s r of None \<Rightarrow> Some (s, M) | Some s' \<Rightarrow> Some (s', add_mset r M))"
| "adm_step admit release (s, M) (Exit r) =
     (if r \<in># M then Some (release s r, M - {#r#}) else None)"

fun adm_run ::
  "('s \<Rightarrow> 'r \<Rightarrow> 's option) \<Rightarrow> ('s \<Rightarrow> 'r \<Rightarrow> 's) \<Rightarrow> 's \<times> 'r multiset \<Rightarrow> 'r adm_event list \<Rightarrow> ('s \<times> 'r multiset) option" where
  "adm_run admit release c [] = Some c"
| "adm_run admit release c (e # es) =
     (case adm_step admit release c e of None \<Rightarrow> None | Some c' \<Rightarrow> adm_run admit release c' es)"

subsection \<open>The contract\<close>

locale admission =
  fixes admit :: "'s \<Rightarrow> 'r \<Rightarrow> 's option"
    and release :: "'s \<Rightarrow> 'r \<Rightarrow> 's"
    and holds :: "'s \<Rightarrow> 'r multiset \<Rightarrow> bool"
  assumes admit_holds: "holds s M \<Longrightarrow> admit s r = Some s' \<Longrightarrow> holds s' (add_mset r M)"
    and release_holds: "holds s M \<Longrightarrow> r \<in># M \<Longrightarrow> holds (release s r) (M - {#r#})"
begin

lemma step_holds:
  "adm_step admit release (s, M) e = Some (s', M') \<Longrightarrow> holds s M \<Longrightarrow> holds s' M'"
  by (cases e) (auto split: option.splits if_splits intro: admit_holds release_holds)

lemma run_holds:
  "adm_run admit release (s, M) es = Some (s', M') \<Longrightarrow> holds s M \<Longrightarrow> holds s' M'"
proof (induction es arbitrary: s M)
  case Nil
  then show ?case by simp
next
  case (Cons e es)
  obtain t N where step: "adm_step admit release (s, M) e = Some (t, N)"
    and rest: "adm_run admit release (t, N) es = Some (s', M')"
    using Cons.prems(1) by (auto split: option.splits)
  show ?case
    using Cons.IH [OF rest] step_holds [OF step Cons.prems(2)] .
qed

text \<open>An admitted request that leaves at once leaves the others as they were.\<close>

lemma admit_release_holds:
  assumes "holds s M" "admit s r = Some s'"
  shows "holds (release s' r) M"
  using release_holds [OF admit_holds [OF assms], of r] by simp

end

subsection \<open>The primitives of the runtime\<close>

record 'sem semaphore =
  sem_new :: "nat \<Rightarrow> 'sem"
  sem_try_acquire_many :: "'sem \<Rightarrow> nat \<Rightarrow> 'sem option"
  sem_add_permits :: "'sem \<Rightarrow> nat \<Rightarrow> 'sem"
  sem_available :: "'sem \<Rightarrow> nat"

text \<open>
  A semaphore holds a number of permits: an acquisition that does not wait succeeds precisely
  when there are enough of them, and a dropped permit returns what it took.
\<close>

definition semaphore_laws :: "'sem semaphore \<Rightarrow> bool" where
  "semaphore_laws X \<longleftrightarrow>
     (\<forall>n. sem_available X (sem_new X n) = n)
     \<and> (\<forall>s n. sem_try_acquire_many X s n \<noteq> None \<longleftrightarrow> n \<le> sem_available X s)
     \<and> (\<forall>s n s'. sem_try_acquire_many X s n = Some s' \<longrightarrow> sem_available X s' = sem_available X s - n)
     \<and> (\<forall>s n. sem_available X (sem_add_permits X s n) = sem_available X s + n)"

lemma semaphore_new: "semaphore_laws X \<Longrightarrow> sem_available X (sem_new X n) = n"
  by (simp add: semaphore_laws_def)

lemma semaphore_try_iff:
  "semaphore_laws X \<Longrightarrow> sem_try_acquire_many X s n = None \<longleftrightarrow> sem_available X s < n"
  unfolding semaphore_laws_def by (metis not_le)

lemma semaphore_try_SomeD:
  "semaphore_laws X \<Longrightarrow> sem_try_acquire_many X s n = Some s' \<Longrightarrow>
     sem_available X s' + n = sem_available X s"
  unfolding semaphore_laws_def by (metis le_add_diff_inverse2 option.distinct(1))

lemma semaphore_add: "semaphore_laws X \<Longrightarrow> sem_available X (sem_add_permits X s n) = sem_available X s + n"
  by (simp add: semaphore_laws_def)

record 'w watch_channel =
  watch_new :: "usize \<Rightarrow> 'w"
  watch_send_replace :: "'w \<Rightarrow> usize \<Rightarrow> 'w"
  watch_borrow :: "'w \<Rightarrow> usize"

text \<open>A watch channel keeps the last value sent.\<close>

definition watch_laws :: "'w watch_channel \<Rightarrow> bool" where
  "watch_laws X \<longleftrightarrow> (\<forall>v. watch_borrow X (watch_new X v) = v)
     \<and> (\<forall>w v. watch_borrow X (watch_send_replace X w v) = v)"

text \<open>Instances that satisfy the laws, for witnesses: a counter and a cell.\<close>

definition counter_semaphore :: "nat semaphore" where
  "counter_semaphore =
     \<lparr>sem_new = (\<lambda>n. n), sem_try_acquire_many = (\<lambda>s n. if n \<le> s then Some (s - n) else None),
      sem_add_permits = (\<lambda>s n. s + n), sem_available = (\<lambda>s. s)\<rparr>"

lemma counter_semaphore_laws: "semaphore_laws counter_semaphore"
  by (auto simp: semaphore_laws_def counter_semaphore_def)

definition cell_watch :: "usize watch_channel" where
  "cell_watch = \<lparr>watch_new = (\<lambda>v. v), watch_send_replace = (\<lambda>w v. v), watch_borrow = (\<lambda>w. w)\<rparr>"

lemma cell_watch_laws: "watch_laws cell_watch"
  by (auto simp: watch_laws_def cell_watch_def)

end
