(* ===== verification/Rust_Str.thy ===== *)
theory Rust_Str
  imports Prelude_Rust
begin

text \<open>
  The operations of \<open>str\<close>, \<open>u8\<close> and \<open>char\<close> that the relay calls. Every function is on
  the UTF-8 bytes of the string; only \<open>trim\<close> and the white-space test need the scalar
  values, which are the chunks that \<open>chars\<close> cuts the bytes into. Numbers are printed in a
  radix and read back (\<open>Display\<close> of the unsigned integers, \<open>{:x}\<close>, \<open>u16::from_str\<close>).
\<close>

subsection \<open>ASCII classes\<close>

abbreviation code_of :: "char \<Rightarrow> nat" where
  "code_of c \<equiv> of_char c"

definition newline :: char where
  "newline = CHR 0x0A"

definition is_ascii_char :: "char \<Rightarrow> bool" where
  "is_ascii_char c \<longleftrightarrow> code_of c < 128"

definition is_ascii_digit :: "char \<Rightarrow> bool" where
  "is_ascii_digit c \<longleftrightarrow> 48 \<le> code_of c \<and> code_of c \<le> 57"

definition is_ascii_uppercase :: "char \<Rightarrow> bool" where
  "is_ascii_uppercase c \<longleftrightarrow> 65 \<le> code_of c \<and> code_of c \<le> 90"

definition is_ascii_lowercase :: "char \<Rightarrow> bool" where
  "is_ascii_lowercase c \<longleftrightarrow> 97 \<le> code_of c \<and> code_of c \<le> 122"

definition is_ascii_alphanumeric :: "char \<Rightarrow> bool" where
  "is_ascii_alphanumeric c \<longleftrightarrow>
     is_ascii_digit c \<or> is_ascii_uppercase c \<or> is_ascii_lowercase c"

definition is_ascii_hexdigit :: "char \<Rightarrow> bool" where
  "is_ascii_hexdigit c \<longleftrightarrow> is_ascii_digit c
     \<or> (65 \<le> code_of c \<and> code_of c \<le> 70) \<or> (97 \<le> code_of c \<and> code_of c \<le> 102)"

definition ascii_lower :: "char \<Rightarrow> char" where
  "ascii_lower c = (if is_ascii_uppercase c then char_of (code_of c + 32) else c)"

definition to_ascii_lowercase :: "rstr \<Rightarrow> rstr" where
  "to_ascii_lowercase s = map ascii_lower s"

definition eq_ignore_ascii_case :: "rstr \<Rightarrow> rstr \<Rightarrow> bool" where
  "eq_ignore_ascii_case a b \<longleftrightarrow> to_ascii_lowercase a = to_ascii_lowercase b"

definition is_ascii :: "rstr \<Rightarrow> bool" where
  "is_ascii s \<longleftrightarrow> list_all is_ascii_char s"

subsection \<open>Scalar values and white space\<close>

text \<open>
  A byte that continues a scalar value has the two top bits \<open>10\<close>. Every scalar value is a
  leading byte and the continuation bytes after it.
\<close>

definition is_continuation :: "char \<Rightarrow> bool" where
  "is_continuation c \<longleftrightarrow> 128 \<le> code_of c \<and> code_of c < 192"

function chars :: "rstr \<Rightarrow> rstr list" where
  "chars [] = []"
| "chars (c # s) =
     (c # takeWhile is_continuation s) # chars (dropWhile is_continuation s)"
  by pat_completeness auto
termination
  by (relation "measure length") (auto simp: le_imp_less_Suc length_dropWhile_le)

text \<open>The encodings of the scalar values with the property \<open>White_Space\<close>.\<close>

definition white_space :: "rstr list" where
  "white_space =
     [[CHR 0x09], [CHR 0x0A], [CHR 0x0B], [CHR 0x0C], [CHR 0x0D], [CHR 0x20],
      [CHR 0xC2, CHR 0x85], [CHR 0xC2, CHR 0xA0], [CHR 0xE1, CHR 0x9A, CHR 0x80],
      [CHR 0xE2, CHR 0x80, CHR 0x80], [CHR 0xE2, CHR 0x80, CHR 0x81],
      [CHR 0xE2, CHR 0x80, CHR 0x82], [CHR 0xE2, CHR 0x80, CHR 0x83],
      [CHR 0xE2, CHR 0x80, CHR 0x84], [CHR 0xE2, CHR 0x80, CHR 0x85],
      [CHR 0xE2, CHR 0x80, CHR 0x86], [CHR 0xE2, CHR 0x80, CHR 0x87],
      [CHR 0xE2, CHR 0x80, CHR 0x88], [CHR 0xE2, CHR 0x80, CHR 0x89],
      [CHR 0xE2, CHR 0x80, CHR 0x8A], [CHR 0xE2, CHR 0x80, CHR 0xA8],
      [CHR 0xE2, CHR 0x80, CHR 0xA9], [CHR 0xE2, CHR 0x80, CHR 0xAF],
      [CHR 0xE2, CHR 0x81, CHR 0x9F], [CHR 0xE3, CHR 0x80, CHR 0x80]]"

definition is_whitespace :: "rstr \<Rightarrow> bool" where
  "is_whitespace ch \<longleftrightarrow> ch \<in> set white_space"

definition trim :: "rstr \<Rightarrow> rstr" where
  "trim s = concat (rev (dropWhile is_whitespace (rev (dropWhile is_whitespace (chars s)))))"

subsection \<open>Searching and splitting\<close>

fun contains_str :: "rstr \<Rightarrow> rstr \<Rightarrow> bool" where
  "contains_str p [] = (p = [])"
| "contains_str p (x # xs) = (take (length p) (x # xs) = p \<or> contains_str p xs)"

fun split_on :: "char \<Rightarrow> rstr \<Rightarrow> rstr list" where
  "split_on c [] = [[]]"
| "split_on c (x # xs) =
     (if x = c then [] # split_on c xs
      else (x # hd (split_on c xs)) # tl (split_on c xs))"

text \<open>For evaluation, with one recursive call.\<close>

lemma split_on_code [code]:
  "split_on c [] = [[]]"
  "split_on c (x # xs) =
     (case split_on c xs of
        [] \<Rightarrow> []
      | p # ps \<Rightarrow> if x = c then [] # p # ps else (x # p) # ps)"
proof -
  have "split_on c xs \<noteq> []" by (cases xs) auto
  then show "split_on c (x # xs) =
     (case split_on c xs of [] \<Rightarrow> [] | p # ps \<Rightarrow> if x = c then [] # p # ps else (x # p) # ps)"
    by (auto split: list.splits)
qed simp

definition rsplit_once :: "char \<Rightarrow> rstr \<Rightarrow> (rstr \<times> rstr) option" where
  "rsplit_once c s =
     (if c \<in> set s
      then Some (rev (tl (dropWhile (\<lambda>x. x \<noteq> c) (rev s))), rev (takeWhile (\<lambda>x. x \<noteq> c) (rev s)))
      else None)"

definition strip_suffix :: "char \<Rightarrow> rstr \<Rightarrow> rstr option" where
  "strip_suffix c s = (if s \<noteq> [] \<and> last s = c then Some (butlast s) else None)"

definition trim_end_matches :: "char \<Rightarrow> rstr \<Rightarrow> rstr" where
  "trim_end_matches c s = rev (dropWhile (\<lambda>x. x = c) (rev s))"

definition starts_with :: "char \<Rightarrow> rstr \<Rightarrow> bool" where
  "starts_with c s \<longleftrightarrow> s \<noteq> [] \<and> hd s = c"

definition ends_with :: "char \<Rightarrow> rstr \<Rightarrow> bool" where
  "ends_with c s \<longleftrightarrow> s \<noteq> [] \<and> last s = c"

subsection \<open>Numbers in a radix\<close>

definition to_digit :: "nat \<Rightarrow> char \<Rightarrow> nat option" where
  "to_digit radix c =
     (let v = (if is_ascii_digit c then code_of c - 48
               else if is_ascii_lowercase c then code_of c - 87
               else if is_ascii_uppercase c then code_of c - 55
               else radix)
      in if v < radix then Some v else None)"

definition digit_char :: "nat \<Rightarrow> char" where
  "digit_char d = char_of (if d < 10 then 48 + d else 87 + d)"

fun radix_string :: "nat \<Rightarrow> nat \<Rightarrow> rstr" where
  "radix_string radix n =
     (if n < radix \<or> radix < 2 then [digit_char n]
      else radix_string radix (n div radix) @ [digit_char (n mod radix)])"

declare radix_string.simps [simp del]

definition digits_value :: "nat \<Rightarrow> rstr \<Rightarrow> nat" where
  "digits_value radix s = foldl (\<lambda>a c. a * radix + the (to_digit radix c)) 0 s"

definition is_digit_of :: "nat \<Rightarrow> char \<Rightarrow> bool" where
  "is_digit_of radix c \<longleftrightarrow> to_digit radix c \<noteq> None"

text \<open>\<open>u16::from_str\<close>: an optional plus sign, then decimal digits whose value fits.\<close>

definition parse_u16 :: "rstr \<Rightarrow> u16 option" where
  "parse_u16 s =
     (let ds = (if starts_with CHR ''+'' s then tl s else s)
      in if ds = [] \<or> \<not> list_all (is_digit_of 10) ds then None
         else if digits_value 10 ds < 65536 then Some (word_of_nat (digits_value 10 ds))
         else None)"

definition u16_string :: "u16 \<Rightarrow> rstr" where
  "u16_string p = radix_string 10 (unat p)"

subsection \<open>Facts on characters\<close>

lemma ascii_lower_idem [simp]: "ascii_lower (ascii_lower c) = ascii_lower c"
  by (auto simp: ascii_lower_def is_ascii_uppercase_def)

lemma to_ascii_lowercase_idem [simp]: "to_ascii_lowercase (to_ascii_lowercase s) = to_ascii_lowercase s"
  by (simp add: to_ascii_lowercase_def)

lemma length_to_ascii_lowercase [simp]: "length (to_ascii_lowercase s) = length s"
  by (simp add: to_ascii_lowercase_def)

lemma is_ascii_hexdigit_lower [simp]: "is_ascii_hexdigit (ascii_lower c) = is_ascii_hexdigit c"
  by (auto simp: ascii_lower_def is_ascii_hexdigit_def is_ascii_uppercase_def is_ascii_digit_def)

lemma list_all_hexdigit_lower [simp]:
  "list_all is_ascii_hexdigit (to_ascii_lowercase s) = list_all is_ascii_hexdigit s"
  by (simp add: to_ascii_lowercase_def list_all_iff)

lemma is_ascii_hexdigit_ascii: "is_ascii_hexdigit c \<Longrightarrow> is_ascii_char c"
  by (auto simp: is_ascii_hexdigit_def is_ascii_digit_def is_ascii_char_def)

subsection \<open>Facts on scalar values\<close>

lemma concat_chars [simp]: "concat (chars s) = s"
  by (induction s rule: chars.induct) simp_all

lemma is_ascii_not_continuation: "is_ascii_char c \<Longrightarrow> \<not> is_continuation c"
  by (simp add: is_ascii_char_def is_continuation_def)

lemma chars_ascii: "is_ascii s \<Longrightarrow> chars s = map (\<lambda>c. [c]) s"
proof (induction s)
  case Nil
  then show ?case by simp
next
  case (Cons c s)
  then have "takeWhile is_continuation s = []" "dropWhile is_continuation s = s"
    by (cases s; simp add: is_ascii_def is_ascii_not_continuation)+
  with Cons show ?case by (simp add: is_ascii_def)
qed

lemma trim_id:
  assumes "list_all (\<lambda>ch. \<not> is_whitespace ch) (chars s)"
  shows "trim s = s"
proof -
  have "dropWhile is_whitespace (chars s) = chars s"
    using assms by (cases "chars s") auto
  moreover have "dropWhile is_whitespace (rev (chars s)) = rev (chars s)"
    using assms by (cases "rev (chars s)") (auto simp: list_all_iff dest: arg_cong [of _ _ set])
  ultimately show ?thesis by (simp add: trim_def)
qed

subsection \<open>Facts on splitting\<close>

lemma contains_str_set: "contains_str p s \<Longrightarrow> set p \<subseteq> set s"
proof (induction s)
  case (Cons x s)
  show ?case
  proof (cases "contains_str p s")
    case True
    with Cons.IH show ?thesis by auto
  next
    case False
    with Cons.prems have "take (length p) (x # s) = p" by simp
    then show ?thesis by (metis set_take_subset)
  qed
qed simp

lemma split_on_not_Nil [simp]: "split_on c s \<noteq> []"
  by (induction s) auto

lemma split_on_no_sep: "c \<notin> set s \<Longrightarrow> split_on c s = [s]"
  by (induction s) auto

lemma split_on_append: "c \<notin> set a \<Longrightarrow> split_on c (a @ c # b) = a # split_on c b"
  by (induction a) auto

lemma split_on_sep_notin: "seg \<in> set (split_on c s) \<Longrightarrow> c \<notin> set seg"
proof (induction s arbitrary: seg)
  case Nil
  then show ?case by simp
next
  case (Cons x s)
  have "hd (split_on c s) \<in> set (split_on c s)"
    by simp
  with Cons.IH have "c \<notin> set (hd (split_on c s))" by blast
  with Cons show ?case
    by (auto split: if_splits dest: list.set_sel(2) [OF split_on_not_Nil])
qed

lemma set_split_on: "(\<Union>seg \<in> set (split_on c s). set seg) = set s - {c}"
proof (induction s)
  case Nil
  then show ?case by simp
next
  case (Cons x s)
  have "set (split_on c s) = insert (hd (split_on c s)) (set (tl (split_on c s)))"
    by (metis list.collapse list.simps(15) split_on_not_Nil)
  with Cons show ?case by auto
qed

lemma rsplit_once_eq_Some:
  "rsplit_once c s = Some (a, b) \<longleftrightarrow> s = a @ c # b \<and> c \<notin> set b"
proof
  assume "rsplit_once c s = Some (a, b)"
  then have c: "c \<in> set (rev s)"
    and a: "a = rev (tl (dropWhile (\<lambda>x. x \<noteq> c) (rev s)))"
    and b: "b = rev (takeWhile (\<lambda>x. x \<noteq> c) (rev s))"
    by (auto simp: rsplit_once_def split: if_splits)
  have ne: "dropWhile (\<lambda>x. x \<noteq> c) (rev s) \<noteq> []"
    using c by (auto simp: dropWhile_eq_Nil_conv)
  have "hd (dropWhile (\<lambda>x. x \<noteq> c) (rev s)) = c"
    using hd_dropWhile [OF ne] by simp
  then have "dropWhile (\<lambda>x. x \<noteq> c) (rev s) = c # rev a"
    using ne a by (cases "dropWhile (\<lambda>x. x \<noteq> c) (rev s)") auto
  then have "rev s = rev b @ c # rev a"
    using b takeWhile_dropWhile_id [of "\<lambda>x. x \<noteq> c" "rev s"] by simp
  then have "rev (rev s) = rev (rev b @ c # rev a)" by simp
  moreover have "c \<notin> set b"
    using b by (auto dest: set_takeWhileD)
  ultimately show "s = a @ c # b \<and> c \<notin> set b" by simp
next
  assume "s = a @ c # b \<and> c \<notin> set b"
  then show "rsplit_once c s = Some (a, b)"
    by (simp add: rsplit_once_def takeWhile_append dropWhile_append)
qed

lemma rsplit_once_eq_None: "rsplit_once c s = None \<longleftrightarrow> c \<notin> set s"
  by (simp add: rsplit_once_def)

lemma trim_end_matches_id: "s = [] \<or> last s \<noteq> c \<Longrightarrow> trim_end_matches c s = s"
  by (induction s rule: rev_induct) (auto simp: trim_end_matches_def)

lemma trim_end_matches_snoc [simp]: "trim_end_matches c (s @ [c]) = trim_end_matches c s"
  by (simp add: trim_end_matches_def)

lemma trim_end_matches_split: "\<exists>n. s = trim_end_matches c s @ replicate n c"
proof (induction s rule: rev_induct)
  case (snoc x s)
  show ?case
  proof (cases "x = c")
    case True
    with snoc show ?thesis by (metis append.assoc replicate_append_same replicate_Suc trim_end_matches_snoc)
  qed (simp add: trim_end_matches_def exI [of _ 0])
qed (simp add: trim_end_matches_def)

lemma trim_end_matches_ends: "\<not> ends_with c (trim_end_matches c s)"
  by (induction s rule: rev_induct) (auto simp: trim_end_matches_def ends_with_def)

lemma set_trim_end_matches: "set (trim_end_matches c s) \<subseteq> set s"
  by (auto simp: trim_end_matches_def dest: set_dropWhileD)

subsection \<open>Facts on numbers\<close>

lemma to_digit_digit_char: "d < radix \<Longrightarrow> radix \<le> 36 \<Longrightarrow> to_digit radix (digit_char d) = Some d"
  by (auto simp: to_digit_def digit_char_def is_ascii_digit_def is_ascii_lowercase_def
      is_ascii_uppercase_def Let_def)

lemma radix_string_ne [simp]: "radix_string radix n \<noteq> []"
  by (subst radix_string.simps) simp

lemma radix_string_digits:
  "2 \<le> radix \<Longrightarrow> radix \<le> 36 \<Longrightarrow> list_all (is_digit_of radix) (radix_string radix n)"
proof (induction radix n rule: radix_string.induct)
  case (1 radix n)
  have "is_digit_of radix (digit_char (n mod radix))"
    using "1.prems" by (simp add: is_digit_of_def to_digit_digit_char)
  moreover have "n < radix \<Longrightarrow> n mod radix = n" by simp
  ultimately show ?case
    using 1 by (subst radix_string.simps) (auto simp: list_all_iff)
qed

lemma digits_value_snoc [simp]:
  "digits_value radix (s @ [c]) = digits_value radix s * radix + the (to_digit radix c)"
  by (simp add: digits_value_def)

lemma digits_value_radix_string:
  "2 \<le> radix \<Longrightarrow> radix \<le> 36 \<Longrightarrow> digits_value radix (radix_string radix n) = n"
proof (induction radix n rule: radix_string.induct)
  case (1 radix n)
  show ?case
  proof (cases "n < radix")
    case True
    with "1.prems" show ?thesis
      by (subst radix_string.simps) (simp add: digits_value_def to_digit_digit_char)
  next
    case False
    then have "digits_value radix (radix_string radix (n div radix)) = n div radix"
      using 1 by simp
    moreover have "radix_string radix n = radix_string radix (n div radix) @ [digit_char (n mod radix)]"
      using False "1.prems" by (subst radix_string.simps) simp
    ultimately show ?thesis
      using "1.prems" by (simp add: to_digit_digit_char)
  qed
qed

lemma radix_string_inj:
  "2 \<le> radix \<Longrightarrow> radix \<le> 36 \<Longrightarrow> radix_string radix m = radix_string radix n \<Longrightarrow> m = n"
  by (metis digits_value_radix_string)

lemma hd_radix_string:
  "2 \<le> radix \<Longrightarrow> radix \<le> 36 \<Longrightarrow> hd (radix_string radix n) = CHR ''0'' \<Longrightarrow> n = 0"
proof (induction radix n rule: radix_string.induct)
  case (1 radix n)
  show ?case
  proof (cases "n < radix")
    case True
    then have "digit_char n = CHR ''0''"
      using "1.prems"(3) by (simp add: radix_string.simps [of radix n])
    then have "to_digit radix (digit_char n) = Some 0"
      using "1.prems" by (simp add: to_digit_def is_ascii_digit_def Let_def)
    then show ?thesis
      using True "1.prems" by (simp add: to_digit_digit_char)
  next
    case False
    have "hd (radix_string radix (n div radix)) = CHR ''0''"
      using False "1.prems" by (simp add: radix_string.simps [of radix n])
    then have "n div radix = 0" using 1 False by simp
    with False "1.prems" show ?thesis by (simp add: div_eq_0_iff)
  qed
qed

lemma length_radix_string:
  "2 \<le> radix \<Longrightarrow> n < radix ^ k \<Longrightarrow> 0 < k \<Longrightarrow> length (radix_string radix n) \<le> k"
proof (induction radix n arbitrary: k rule: radix_string.induct)
  case (1 radix n)
  show ?case
  proof (cases "n < radix")
    case True
    with "1.prems" show ?thesis by (subst radix_string.simps) simp
  next
    case False
    obtain j where k: "k = Suc j" using "1.prems"(3) by (cases k) auto
    have j: "0 < j" using k False "1.prems"(2) by (cases j) auto
    have "n div radix < radix ^ j"
      using "1.prems"(1,2) k by (simp add: less_mult_imp_div_less mult.commute)
    then have "length (radix_string radix (n div radix)) \<le> j"
      using 1 False j by simp
    with False "1.prems"(1) k show ?thesis by (subst radix_string.simps) simp
  qed
qed

lemma decimal_digit_ascii: "is_digit_of 10 c \<longleftrightarrow> is_ascii_digit c"
  by (auto simp: is_digit_of_def to_digit_def is_ascii_digit_def is_ascii_lowercase_def
      is_ascii_uppercase_def Let_def split: if_splits)

lemma hex_digit_ascii: "is_digit_of 16 c \<longleftrightarrow> is_ascii_hexdigit c"
  by (auto simp: is_digit_of_def to_digit_def is_ascii_hexdigit_def is_ascii_digit_def
      is_ascii_lowercase_def is_ascii_uppercase_def Let_def split: if_splits)

lemma u16_string_digits: "list_all is_ascii_digit (u16_string p)"
  using radix_string_digits [of 10 "unat p"]
  by (simp add: u16_string_def list_all_iff decimal_digit_ascii)

lemma u16_string_ne [simp]: "u16_string p \<noteq> []"
  by (simp add: u16_string_def)

lemma parse_u16_string [simp]: "parse_u16 (u16_string p) = Some p"
proof -
  have "hd (u16_string p) \<noteq> CHR ''+''"
    using u16_string_digits [of p]
    by (cases "u16_string p") (auto simp: is_ascii_digit_def)
  then have "\<not> starts_with CHR ''+'' (u16_string p)"
    by (simp add: starts_with_def)
  moreover have "digits_value 10 (u16_string p) = unat p"
    by (simp add: u16_string_def digits_value_radix_string)
  moreover have "unat p < 65536"
    using unsigned_less [of p] by simp
  moreover have "list_all (is_digit_of 10) (u16_string p)"
    by (simp add: u16_string_def radix_string_digits)
  ultimately show ?thesis by (simp add: parse_u16_def)
qed

lemmas [rust_str] = split_on_no_sep split_on_append chars_ascii trim_id trim_end_matches_id
  rsplit_once_eq_Some rsplit_once_eq_None

end
