(* ===== verification/Protocol.thy ===== *)
theory Protocol
  imports Rust_Str
begin

text \<open>
  \<open>src/protocol.rs\<close>: the classification of one wallet frame and the responses the proxy
  writes itself. The package \<open>serde_json\<close> is a parameter: a record \<open>serde\<close> of the calls
  the code makes (\<open>from_slice\<close> at the three structs that derive \<open>Deserialize\<close>,
  \<open>to_vec\<close>, \<open>to_string\<close>); its type \<open>Value\<close> is the datatype \<open>value\<close>, with a number
  either an integer or a floating-point bit pattern. What is relied on of it is stated by
  \<open>serde_total\<close>, \<open>serde_one_line\<close> and \<open>serde_id_roundtrip\<close>.

  A panic (\<open>expect\<close> on an error) is the value \<open>None\<close> of a response function.
\<close>

datatype number = Integer int | Float u64

datatype "value" =
    Null
  | Bool bool
  | Number number
  | String rstr
  | Array "value list"
  | Object "(rstr \<times> value) list"

fun is_i64 :: "number \<Rightarrow> bool" where
  "is_i64 (Integer i) \<longleftrightarrow> - (2 ^ 63) \<le> i \<and> i < 2 ^ 63"
| "is_i64 (Float f) \<longleftrightarrow> False"

fun is_u64 :: "number \<Rightarrow> bool" where
  "is_u64 (Integer i) \<longleftrightarrow> 0 \<le> i \<and> i < 2 ^ 64"
| "is_u64 (Float f) \<longleftrightarrow> False"

fun as_str :: "value \<Rightarrow> rstr option" where
  "as_str (String s) = Some s"
| "as_str _ = None"

subsection \<open>The structs that are deserialised, and the package that does it\<close>

record request =
  req_id :: "value option"
  req_method :: rstr
  req_params :: "value option"

record upstream_envelope =
  env_id :: "value option"
  env_method :: "rstr option"

record relay_response =
  resp_id :: "value"
  resp_result :: "value option"
  resp_error :: "value option"

record serde =
  from_slice_request :: "bytes \<Rightarrow> request option"
  from_slice_envelope :: "bytes \<Rightarrow> upstream_envelope option"
  from_slice_response :: "bytes \<Rightarrow> relay_response option"
  to_vec :: "value \<Rightarrow> bytes option"
  to_string :: "value \<Rightarrow> rstr option"

definition serde_total :: "serde \<Rightarrow> bool" where
  "serde_total S \<longleftrightarrow> (\<forall>v. to_vec S v \<noteq> None) \<and> (\<forall>v. to_string S v \<noteq> None)"

definition serde_one_line :: "serde \<Rightarrow> bool" where
  "serde_one_line S \<longleftrightarrow> (\<forall>v b. to_vec S v = Some b \<longrightarrow> newline \<notin> set b)"

subsection \<open>Request identifiers\<close>

definition BROADCAST_METHOD :: rstr where
  "BROADCAST_METHOD = ''blockchain.transaction.broadcast''"

definition MAX_REQUEST_ID_STRING_BYTES :: nat where
  "MAX_REQUEST_ID_STRING_BYTES = 256"

fun is_valid_request_id :: "value \<Rightarrow> bool" where
  "is_valid_request_id (Number number) \<longleftrightarrow> is_i64 number \<or> is_u64 number"
| "is_valid_request_id (String s) \<longleftrightarrow> length s \<le> MAX_REQUEST_ID_STRING_BYTES"
| "is_valid_request_id _ \<longleftrightarrow> False"

text \<open>The text of an identifier reads back: some reader returns the identifier from it.\<close>

definition serde_id_roundtrip :: "serde \<Rightarrow> bool" where
  "serde_id_roundtrip S \<longleftrightarrow>
     (\<exists>reader. \<forall>v s. is_valid_request_id v \<and> to_string S v = Some s \<longrightarrow> reader s = Some v)"

subsection \<open>Classification\<close>

datatype client_frame =
    Broadcast "value" rstr
  | Passthrough "value option"

record protocol_error =
  err_id :: "value"
  err_code :: int
  err_message :: rstr

definition invalid_request :: protocol_error where
  "invalid_request =
     \<lparr>err_id = Null, err_code = -32600, err_message = ''invalid Electrum request''\<rparr>"

definition invalid_params :: "value \<Rightarrow> protocol_error" where
  "invalid_params ident =
     \<lparr>err_id = ident, err_code = -32602,
      err_message = ''broadcast expects one hex-encoded transaction''\<rparr>"

fun broadcast_param :: "value option \<Rightarrow> rstr option" where
  "broadcast_param (Some (Array values)) = (if length values = 1 then as_str (hd values) else None)"
| "broadcast_param (Some (String s)) = Some s"
| "broadcast_param _ = None"

definition classify :: "serde \<Rightarrow> bytes \<Rightarrow> protocol_error + client_frame" where
  "classify S frame =
     try_bind (ok_or invalid_request (from_slice_request S frame)) (\<lambda>request.
     try_bind
       (case req_id request of
          Some ident \<Rightarrow> if is_valid_request_id ident then Inr (Some ident) else Inl invalid_request
        | None \<Rightarrow> Inr None)
       (\<lambda>ident.
     if req_method request \<noteq> BROADCAST_METHOD then Inr (Passthrough ident)
     else
       (let ident = (case ident of Some v \<Rightarrow> v | None \<Rightarrow> Null)
        in try_bind (ok_or (invalid_params ident) (broadcast_param (req_params request)))
             (\<lambda>raw_transaction.
               if raw_transaction = [] \<or> length raw_transaction mod 2 \<noteq> 0
                  \<or> \<not> list_all is_ascii_hexdigit raw_transaction
               then Inl (invalid_params ident)
               else Inr (Broadcast ident raw_transaction)))))"

subsection \<open>Responses\<close>

definition encode_response :: "serde \<Rightarrow> value \<Rightarrow> bytes option" where
  "encode_response S v = map_option (\<lambda>response. response @ [newline]) (to_vec S v)"

definition error_object :: "int \<Rightarrow> rstr \<Rightarrow> value" where
  "error_object code message =
     Object [(''code'', Number (Integer code)), (''message'', String message)]"

definition error_response :: "serde \<Rightarrow> protocol_error \<Rightarrow> bytes option" where
  "error_response S e =
     encode_response S (Object [(''id'', err_id e),
                                (''error'', error_object (err_code e) (err_message e))])"

definition success_response :: "serde \<Rightarrow> value \<Rightarrow> rstr \<Rightarrow> bytes option" where
  "success_response S ident transaction_id =
     encode_response S (Object [(''id'', ident), (''result'', String transaction_id)])"

definition relay_error_response :: "serde \<Rightarrow> value \<Rightarrow> bool \<Rightarrow> bytes option" where
  "relay_error_response S ident relay_is_disabled =
     (let (code, message) =
            (if relay_is_disabled then (-32090, ''private broadcasting is not configured'')
             else (-32091, ''private broadcast failed; no public fallback was attempted''))
      in encode_response S (Object [(''id'', ident), (''error'', error_object code message)]))"

definition invalid_frame_response :: "serde \<Rightarrow> bytes option" where
  "invalid_frame_response S = error_response S invalid_request"

definition pending_request_limit_response :: "serde \<Rightarrow> value \<Rightarrow> bytes option" where
  "pending_request_limit_response S ident =
     encode_response S (Object [(''id'', ident),
                                (''error'', error_object (-32092) ''too many pending requests'')])"

lemmas response_defs = error_response_def success_response_def relay_error_response_def
  invalid_frame_response_def pending_request_limit_response_def

subsection \<open>Facts on classification\<close>

definition hex_transaction :: "rstr \<Rightarrow> bool" where
  "hex_transaction raw \<longleftrightarrow> raw \<noteq> [] \<and> even (length raw) \<and> list_all is_ascii_hexdigit raw"

text \<open>A request a wallet may make: it parses, and its identifier, if any, is exact.\<close>

definition well_formed_request :: "serde \<Rightarrow> bytes \<Rightarrow> request \<Rightarrow> bool" where
  "well_formed_request S frame r \<longleftrightarrow> from_slice_request S frame = Some r
     \<and> (\<forall>ident. req_id r = Some ident \<longrightarrow> is_valid_request_id ident)"

lemma hex_check:
  "raw = [] \<or> length raw mod 2 \<noteq> 0 \<or> \<not> list_all is_ascii_hexdigit raw \<longleftrightarrow> \<not> hex_transaction raw"
  unfolding hex_transaction_def by presburger

lemma classify_Passthrough:
  "classify S frame = Inr (Passthrough ident) \<longleftrightarrow>
     (\<exists>r. well_formed_request S frame r \<and> req_method r \<noteq> BROADCAST_METHOD \<and> ident = req_id r)"
  by (auto simp: classify_def well_formed_request_def try_bind_eq_Inr Let_def
      split: option.splits if_splits)

lemma classify_Broadcast:
  "classify S frame = Inr (Broadcast ident raw) \<longleftrightarrow>
     (\<exists>r. well_formed_request S frame r \<and> req_method r = BROADCAST_METHOD
        \<and> ident = (case req_id r of Some v \<Rightarrow> v | None \<Rightarrow> Null)
        \<and> broadcast_param (req_params r) = Some raw \<and> hex_transaction raw)"
proof (cases "from_slice_request S frame")
  case None
  then show ?thesis by (simp add: classify_def well_formed_request_def)
next
  case (Some r)
  then show ?thesis
    unfolding classify_def hex_check
    by (cases "req_id r")
      (auto simp: well_formed_request_def try_bind_eq_Inr Let_def split: if_splits)
qed

lemma classify_Inl:
  "classify S frame = Inl e \<Longrightarrow> e = invalid_request \<or> (\<exists>ident. e = invalid_params ident)"
  by (auto simp: classify_def try_bind_def ok_or_def Let_def split: option.splits if_splits sum.splits)

lemma classify_Passthrough_id: "classify S frame = Inr (Passthrough (Some ident)) \<Longrightarrow> is_valid_request_id ident"
  by (auto simp: classify_Passthrough well_formed_request_def)

lemma classify_Broadcast_id:
  "classify S frame = Inr (Broadcast ident raw) \<Longrightarrow> is_valid_request_id ident \<or> ident = Null"
  by (auto simp: classify_Broadcast well_formed_request_def split: option.splits)

lemma broadcast_param_Some:
  "broadcast_param p = Some raw \<longleftrightarrow> p = Some (Array [String raw]) \<or> p = Some (String raw)"
proof -
  have "length vs = 1 \<and> as_str (hd vs) = Some raw \<longleftrightarrow> vs = [String raw]" for vs
    by (cases vs; cases "hd vs") auto
  then show ?thesis
    by (cases p rule: broadcast_param.cases) auto
qed

subsection \<open>Facts on responses\<close>

lemma encode_response_total: "serde_total S \<Longrightarrow> encode_response S v \<noteq> None"
  by (simp add: encode_response_def serde_total_def)

lemma responses_total:
  assumes "serde_total S"
  shows "error_response S e \<noteq> None" "success_response S ident t \<noteq> None"
    "relay_error_response S ident d \<noteq> None" "invalid_frame_response S \<noteq> None"
    "pending_request_limit_response S ident \<noteq> None"
  using encode_response_total [OF assms] by (simp_all add: response_defs Let_def)

subsection \<open>A printer\<close>

text \<open>
  A concrete instance of the parameter, for witnesses: integers in decimal, strings in quotes
  with the escapes a line needs, and tables for the frames that are deserialised.
\<close>

definition escape_char :: "char \<Rightarrow> rstr" where
  "escape_char c = (if c = newline then [CHR 0x5C, CHR ''n'']
                    else if c = CHR 0x5C then [CHR 0x5C, CHR 0x5C] else [c])"

definition quote_str :: "rstr \<Rightarrow> rstr" where
  "quote_str s = CHR 0x22 # concat (map escape_char s) @ [CHR 0x22]"

definition int_string :: "int \<Rightarrow> rstr" where
  "int_string i = (if i < 0 then CHR ''-'' # radix_string 10 (nat (- i)) else radix_string 10 (nat i))"

fun print_value :: "value \<Rightarrow> rstr" where
  "print_value Null = ''null''"
| "print_value (Bool b) = (if b then ''true'' else ''false'')"
| "print_value (Number (Integer i)) = int_string i"
| "print_value (Number (Float f)) = CHR ''~'' # radix_string 10 (unat f)"
| "print_value (String s) = quote_str s"
| "print_value (Array vs) = CHR ''['' # concat (map (\<lambda>v. print_value v @ '','') vs) @ '']''"
| "print_value (Object kvs) =
     CHR ''{'' # concat (map (\<lambda>(k, v). quote_str k @ '':'' @ print_value v @ '','') kvs) @ ''}''"

definition printer_serde ::
  "(bytes \<times> request) list \<Rightarrow> (bytes \<times> upstream_envelope) list \<Rightarrow> (bytes \<times> relay_response) list \<Rightarrow> serde" where
  "printer_serde requests envelopes responses =
     \<lparr>from_slice_request = map_of requests, from_slice_envelope = map_of envelopes,
      from_slice_response = map_of responses,
      to_vec = (\<lambda>v. Some (print_value v)), to_string = (\<lambda>v. Some (print_value v))\<rparr>"

lemma printer_serde_total: "serde_total (printer_serde a b c)"
  by (simp add: serde_total_def printer_serde_def)

lemma escape_no_newline: "newline \<notin> set (concat (map escape_char s))"
  by (auto simp: escape_char_def newline_def)

lemma radix_string_no_newline: "newline \<notin> set (radix_string 10 n)"
  using radix_string_digits [of 10 n]
  by (auto simp: list_all_iff decimal_digit_ascii is_ascii_digit_def newline_def)

lemma print_value_no_newline: "newline \<notin> set (print_value v)"
proof (induction v rule: print_value.induct)
  case (7 kvs)
  then show ?case
    using escape_no_newline by (auto simp: quote_str_def newline_def)
qed (use escape_no_newline radix_string_no_newline in
      \<open>auto simp: quote_str_def int_string_def newline_def\<close>)

lemma printer_serde_one_line: "serde_one_line (printer_serde a b c)"
  by (auto simp: serde_one_line_def printer_serde_def print_value_no_newline)

lemma escape_inj: "concat (map escape_char s) = concat (map escape_char t) \<Longrightarrow> s = t"
proof (induction s arbitrary: t)
  case Nil
  then show ?case by (cases t) (auto simp: escape_char_def split: if_splits)
next
  case (Cons c s)
  then show ?case
    by (cases t) (auto simp: escape_char_def newline_def split: if_splits)
qed

lemma radix_string_hd_digit: "is_ascii_digit (hd (radix_string 10 n))"
  using radix_string_digits [of 10 n]
  by (cases "radix_string 10 n") (auto simp: decimal_digit_ascii)

lemma valid_id_shape:
  "is_valid_request_id v \<Longrightarrow> (\<exists>i. v = Number (Integer i)) \<or> (\<exists>s. v = String s)"
  by (cases v) (auto elim: is_i64.elims is_u64.elims)

lemma print_id_inj:
  assumes "is_valid_request_id v" "is_valid_request_id w" "print_value v = print_value w"
  shows "v = w"
proof -
  have dash: "radix_string 10 n \<noteq> CHR ''-'' # t" for t n
    using radix_string_hd_digit [of n] by (auto simp: is_ascii_digit_def dest!: arg_cong [of _ _ hd])
  have int: "int_string i = int_string j \<Longrightarrow> i = j" for i j
    by (auto simp: int_string_def dash dash [symmetric] split: if_splits dest!: radix_string_inj [of 10, simplified])
  have quote: "int_string i \<noteq> quote_str s" for s i
    using radix_string_hd_digit [of "nat i"]
    by (auto simp: quote_str_def int_string_def is_ascii_digit_def dest!: arg_cong [of _ _ hd])
  have strs: "quote_str s = quote_str t \<Longrightarrow> s = t" for s t
    by (simp add: quote_str_def escape_inj)
  show ?thesis
    using valid_id_shape [OF assms(1)] valid_id_shape [OF assms(2)] assms(3)
    by (auto simp: quote quote [symmetric] dest: int strs)
qed

lemma printer_serde_roundtrip: "serde_id_roundtrip (printer_serde a b c)"
  unfolding serde_id_roundtrip_def
  using inv_into_f_f [OF inj_onI [of "Collect is_valid_request_id" print_value]] print_id_inj
  by (intro exI [of _ "\<lambda>s. Some (inv_into (Collect is_valid_request_id) print_value s)"])
    (auto simp: printer_serde_def)

lemmas printer_serde_ok = printer_serde_total printer_serde_one_line printer_serde_roundtrip

subsection \<open>Properties of the protocol\<close>

text \<open>
  C16: the classification is exact. A frame is a broadcast precisely when it is one well-formed
  request for the broadcast method whose parameters are one non-empty hex string of even
  length, alone or in an array of one; it is passed through precisely when it is one
  well-formed request for another method; every other frame is an error. So no request for
  the broadcast method is ever passed through, whatever its parameters are.
\<close>

theorem classify_exact:
  "(classify S frame = Inr (Broadcast ident raw) \<longleftrightarrow>
      (\<exists>r. well_formed_request S frame r \<and> req_method r = BROADCAST_METHOD
         \<and> ident = (case req_id r of Some v \<Rightarrow> v | None \<Rightarrow> Null)
         \<and> (req_params r = Some (Array [String raw]) \<or> req_params r = Some (String raw))
         \<and> raw \<noteq> [] \<and> even (length raw) \<and> list_all is_ascii_hexdigit raw))
   \<and> (classify S frame = Inr (Passthrough opt) \<longleftrightarrow>
      (\<exists>r. well_formed_request S frame r \<and> req_method r \<noteq> BROADCAST_METHOD \<and> opt = req_id r))"
  by (auto simp: classify_Broadcast classify_Passthrough broadcast_param_Some hex_transaction_def)

text \<open>
  C39: an error of the classification is one of two: the request is not well formed, and the
  answer carries no identifier; or it is a broadcast with bad parameters, and the answer
  carries the identifier of the request.
\<close>

theorem classify_errors:
  "classify S frame = Inl e \<longleftrightarrow>
     (\<nexists>r. well_formed_request S frame r) \<and> e = invalid_request
     \<or> (\<exists>r. well_formed_request S frame r \<and> req_method r = BROADCAST_METHOD
          \<and> (\<nexists>raw. broadcast_param (req_params r) = Some raw \<and> hex_transaction raw)
          \<and> e = invalid_params (case req_id r of Some v \<Rightarrow> v | None \<Rightarrow> Null))"
proof (cases "from_slice_request S frame")
  case None
  then show ?thesis by (auto simp: classify_def well_formed_request_def)
next
  case (Some r)
  then show ?thesis
    unfolding classify_def hex_check
    by (cases "req_id r"; cases "broadcast_param (req_params r)")
      (auto simp: well_formed_request_def Let_def)
qed

end
