(* ===== verification/Pending.thy ===== *)
theory Pending
  imports Admission Protocol "HOL-Library.AList"
begin

text \<open>
  The table of pending requests of a connection, in \<open>src/proxy.rs\<close>: \<open>PendingRequests\<close>,
  \<open>reserve_request\<close> and \<open>request_id_key\<close>. The \<open>HashMap\<close> is an association list with
  distinct keys; the locale \<open>hash_map\<close> states what a hash map promises, and the lemmas on
  reservations use it and not the list.
\<close>

datatype pending_request = Upstream | BroadcastPending

datatype reservation = Reserved | Duplicate | LimitExceeded

type_synonym pending_requests = "(rstr \<times> pending_request) list"

subsection \<open>Hash maps\<close>

locale hash_map =
  fixes empty :: 't
    and get :: "'t \<Rightarrow> 'k \<Rightarrow> 'v option"
    and insert_entry :: "'k \<Rightarrow> 'v \<Rightarrow> 't \<Rightarrow> 't"
    and remove_entry :: "'k \<Rightarrow> 't \<Rightarrow> 't"
    and len :: "'t \<Rightarrow> nat"
    and wf :: "'t \<Rightarrow> bool"
  assumes wf_empty: "wf empty"
    and wf_insert: "wf t \<Longrightarrow> wf (insert_entry k v t)"
    and wf_remove: "wf t \<Longrightarrow> wf (remove_entry k t)"
    and get_empty: "get empty k = None"
    and get_insert: "wf t \<Longrightarrow> get (insert_entry k v t) k' = (if k' = k then Some v else get t k')"
    and get_remove: "wf t \<Longrightarrow> get (remove_entry k t) k' = (if k' = k then None else get t k')"
    and len_empty: "len empty = 0"
    and len_insert: "wf t \<Longrightarrow> get t k = None \<Longrightarrow> len (insert_entry k v t) = len t + 1"
    and len_remove: "wf t \<Longrightarrow> get t k \<noteq> None \<Longrightarrow> len (remove_entry k t) + 1 = len t"
begin

text \<open>A reservation that is released leaves the table as it was.\<close>

lemma insert_remove:
  assumes "wf t" "get t k = None"
  shows "get (remove_entry k (insert_entry k v t)) k' = get t k'"
    and "len (remove_entry k (insert_entry k v t)) = len t"
  using assms len_remove [OF wf_insert [OF assms(1)], of k v k] len_insert [OF assms]
  by (auto simp: get_remove get_insert wf_insert)

lemma nonempty_len: "wf t \<Longrightarrow> get t k \<noteq> None \<Longrightarrow> 0 < len t"
  using len_remove [of t k] by linarith

end

definition table_get :: "pending_requests \<Rightarrow> rstr \<Rightarrow> pending_request option" where
  "table_get pending key = map_of pending key"

definition table_insert :: "rstr \<Rightarrow> pending_request \<Rightarrow> pending_requests \<Rightarrow> pending_requests" where
  "table_insert key request pending = AList.update key request pending"

definition table_remove :: "rstr \<Rightarrow> pending_requests \<Rightarrow> pending_requests" where
  "table_remove key pending = AList.delete key pending"

definition table_wf :: "pending_requests \<Rightarrow> bool" where
  "table_wf pending \<longleftrightarrow> distinct (map fst pending)"

lemma delete_absent: "k \<notin> fst ` set t \<Longrightarrow> AList.delete k t = t"
  by (induction t) auto

lemma length_delete:
  "distinct (map fst t) \<Longrightarrow> map_of t k \<noteq> None \<Longrightarrow> length (AList.delete k t) + 1 = length t"
proof (induction t)
  case (Cons e t)
  show ?case
  proof (cases "fst e = k")
    case True
    then have "AList.delete k t = t" using Cons.prems by (intro delete_absent) simp
    with True show ?thesis by (cases e) simp
  next
    case False
    with Cons show ?thesis by (cases e) auto
  qed
qed simp

lemma length_update: "map_of t k = None \<Longrightarrow> length (AList.update k v t) = length t + 1"
  by (induction t) (auto split: if_splits)

interpretation table: hash_map "[]" table_get table_insert table_remove length table_wf
proof unfold_locales
  fix t :: pending_requests and k
  assume "table_wf t" "table_get t k \<noteq> None"
  then show "length (table_remove k t) + 1 = length t"
    unfolding table_wf_def table_get_def table_remove_def by (rule length_delete)
qed (auto simp: table_get_def table_insert_def table_remove_def table_wf_def update_conv' delete_conv'
      length_update distinct_update distinct_delete)

subsection \<open>Reservations\<close>

definition reserve_request ::
  "pending_requests \<Rightarrow> rstr \<Rightarrow> pending_request \<Rightarrow> usize \<Rightarrow> reservation \<times> pending_requests" where
  "reserve_request pending key request max_pending_requests =
     (if table_get pending key \<noteq> None then (Duplicate, pending)
      else if length pending \<ge> unat max_pending_requests then (LimitExceeded, pending)
      else (Reserved, table_insert key request pending))"

definition request_id_key :: "serde \<Rightarrow> value \<Rightarrow> rstr option" where
  "request_id_key S ident = (if is_valid_request_id ident then to_string S ident else None)"

lemma request_id_key_Some:
  "serde_total S \<Longrightarrow> is_valid_request_id ident \<Longrightarrow> request_id_key S ident \<noteq> None"
  by (simp add: request_id_key_def serde_total_def)

lemma request_id_key_inj:
  assumes "serde_id_roundtrip S" "request_id_key S a = Some k" "request_id_key S b = Some k"
  shows "a = b"
proof -
  obtain reader where "\<And>v s. is_valid_request_id v \<Longrightarrow> to_string S v = Some s \<Longrightarrow> reader s = Some v"
    using assms(1) unfolding serde_id_roundtrip_def by blast
  with assms(2,3) have "reader k = Some a" "reader k = Some b"
    unfolding request_id_key_def by (metis option.distinct(1))+
  then show ?thesis by simp
qed

lemma reserve_request_cases:
  "reserve_request pending key request m = (r, pending') \<longleftrightarrow>
     (case r of
        Duplicate \<Rightarrow> pending' = pending \<and> table_get pending key \<noteq> None
      | LimitExceeded \<Rightarrow> pending' = pending \<and> table_get pending key = None \<and> unat m \<le> length pending
      | Reserved \<Rightarrow> pending' = table_insert key request pending \<and> table_get pending key = None
          \<and> length pending < unat m)"
  by (auto simp: reserve_request_def split: reservation.splits)

subsection \<open>The table is an admission\<close>

definition admit_pending ::
  "usize \<Rightarrow> pending_requests \<Rightarrow> rstr \<times> pending_request \<Rightarrow> pending_requests option" where
  "admit_pending m pending e =
     (case reserve_request pending (fst e) (snd e) m of
        (Reserved, pending') \<Rightarrow> Some pending'
      | _ \<Rightarrow> None)"

definition release_pending :: "pending_requests \<Rightarrow> rstr \<times> pending_request \<Rightarrow> pending_requests" where
  "release_pending pending e = table_remove (fst e) pending"

definition pending_is :: "usize \<Rightarrow> pending_requests \<Rightarrow> (rstr \<times> pending_request) multiset \<Rightarrow> bool" where
  "pending_is m pending M \<longleftrightarrow> table_wf pending \<and> mset pending = M \<and> length pending \<le> unat m"

lemma mset_update_new: "map_of t k = None \<Longrightarrow> mset (AList.update k v t) = add_mset (k, v) (mset t)"
  by (induction t) (auto split: if_splits)

lemma mset_delete:
  "distinct (map fst t) \<Longrightarrow> (k, v) \<in> set t \<Longrightarrow> mset (AList.delete k t) = mset t - {#(k, v)#}"
proof (induction t)
  case (Cons e t)
  show ?case
  proof (cases "fst e = k")
    case True
    then have "k \<notin> fst ` set t" using Cons.prems(1) by auto
    moreover then have "AList.delete k t = t" by (rule delete_absent)
    ultimately show ?thesis using True Cons.prems(2) by (cases e) (auto simp: image_iff)
  next
    case False
    with Cons show ?thesis by (cases e) (auto simp: add_mset_remove_trivial_If)
  qed
qed simp

interpretation pending: admission "admit_pending m" release_pending "pending_is m" for m
proof unfold_locales
  fix t t' M r
  assume "pending_is m t M" "admit_pending m t r = Some t'"
  then have t: "table_wf t" "mset t = M" "t' = table_insert (fst r) (snd r) t" "table_get t (fst r) = None"
      "length t < unat m"
    by (auto simp: pending_is_def admit_pending_def reserve_request_def split: if_splits)
  then show "pending_is m t' (add_mset r M)"
    using table.wf_insert [OF t(1)] table.len_insert [OF t(1,4)] mset_update_new [of t "fst r" "snd r"]
    by (simp add: pending_is_def table_insert_def table_get_def)
next
  fix t M and r :: "rstr \<times> pending_request"
  assume "pending_is m t M" "r \<in># M"
  then have t: "table_wf t" "mset t = M" "r \<in> set t" "length t \<le> unat m"
    by (auto simp: pending_is_def)
  have "length (table_remove (fst r) t) \<le> length t"
    by (simp add: table_remove_def AList.length_delete_le)
  then show "pending_is m (release_pending t r) (M - {#r#})"
    using t table.wf_remove [OF t(1)] mset_delete [of t "fst r" "snd r"]
    by (auto simp: pending_is_def release_pending_def table_remove_def table_wf_def)
qed

subsection \<open>Properties of the table\<close>

text \<open>
  The table holds exactly the requests in flight, within its limit. After any sequence of
  reservations (granted or refused) and releases, the entries are the granted ones that were not
  released, each key once, and never more than the limit.
\<close>

lemma pending_table_exact:
  assumes "adm_run (admit_pending m) release_pending ([], {#}) es = Some (t, M)"
  shows "distinct (map fst t) \<and> mset t = M \<and> length t \<le> unat m"
  using pending.run_holds [OF assms] by (simp add: pending_is_def table_wf_def)

text \<open>
  C30: a reservation is found by its own identifier and by no other. The three answers of
  \<open>reserve_request\<close> are exact (the identifier is already pending, the table is full, or
  neither), a refusal leaves the table alone, and after a grant looking up the key of any valid
  identifier finds the new entry precisely when it is the same identifier. Removing the entry
  restores every lookup and the size.
\<close>

theorem reserve_request_spec:
  assumes "table_wf t" "serde_id_roundtrip S" "request_id_key S a = Some k" "request_id_key S b = Some k'"
    and "reserve_request t k request m = (r, t')"
  shows "(case r of
       Duplicate \<Rightarrow> t' = t \<and> table_get t k \<noteq> None
     | LimitExceeded \<Rightarrow> t' = t \<and> table_get t k = None \<and> unat m \<le> length t
     | Reserved \<Rightarrow> table_get t k = None \<and> length t' = length t + 1 \<and> length t' \<le> unat m
         \<and> table_get t' k' = (if b = a then Some request else table_get t k')
         \<and> table_get (table_remove k t') k' = table_get t k' \<and> length (table_remove k t') = length t)"
proof (cases r)
  case Reserved
  with assms(5) have t': "t' = table_insert k request t" "table_get t k = None" "length t < unat m"
    by (simp_all add: reserve_request_cases)
  have "k' = k \<longleftrightarrow> b = a"
    using request_id_key_inj [OF assms(2)] assms(3,4) by auto
  with Reserved t' show ?thesis
    using table.len_insert [OF assms(1) t'(2)] table.insert_remove [OF assms(1) t'(2), of request]
    by (simp add: table.get_insert [OF assms(1)])
qed (use assms(5) in \<open>simp_all add: reserve_request_cases\<close>)

theorem reserve_request_spec_witness:
  "table_get (snd (reserve_request [] ''1'' Upstream 2)) ''1'' = Some Upstream
   \<and> table_get (snd (reserve_request [] ''1'' Upstream 2)) ''2'' = None"
proof -
  let ?S = "printer_serde [] [] []" and ?n = "\<lambda>i. Number (Integer i)"
  have key: "request_id_key ?S (?n 1) = Some ''1''" "request_id_key ?S (?n 2) = Some ''2''"
    by code_simp+
  have wf: "table_wf []" by (simp add: table_wf_def)
  have run: "reserve_request [] ''1'' Upstream 2 = (Reserved, [(''1'', Upstream)])"
    by (simp add: reserve_request_def table_get_def table_insert_def)
  show ?thesis
    using reserve_request_spec [OF wf printer_serde_roundtrip key(1) key(1) run]
      reserve_request_spec [OF wf printer_serde_roundtrip key(1) key(2) run] run
    by (simp add: table_get_def)
qed

end
