(* ===== verification/Framing.thy ===== *)
theory Framing
  imports Rust_Str
begin

text \<open>
  The frame boundary of \<open>src/proxy.rs\<close>: \<open>read_frame\<close> reads one newline-delimited frame
  of at most \<open>max_frame_bytes\<close> bytes. A byte stream is what is still to come: the bytes, and
  how the stream ends (end of file or an I/O error). \<open>take_read_until\<close> is
  \<open>reader.take(n).read_until(b'\<newline>')\<close>: the bytes up to and with the first newline, cut
  after \<open>n\<close> bytes. The limit is computed as the code computes it, \<open>max_frame_bytes + 1\<close> in
  64 bits.

  \<open>read_frames\<close> is the sequence of frames the two reader loops see.
\<close>

datatype io_error_kind = InvalidData | OtherKind

datatype stream_end = Eof | Failed io_error_kind

record byte_stream =
  incoming :: bytes
  finish :: stream_end

definition take_read_until :: "nat \<Rightarrow> byte_stream \<Rightarrow> io_error_kind + (bytes \<times> byte_stream)" where
  "take_read_until n st =
     (let line = takeWhile (\<lambda>b. b \<noteq> newline) (incoming st)
      in if newline \<in> set (incoming st) \<and> length line < n
         then Inr (line @ [newline], st\<lparr>incoming := drop (length line + 1) (incoming st)\<rparr>)
         else if n \<le> length (incoming st)
         then Inr (take n (incoming st), st\<lparr>incoming := drop n (incoming st)\<rparr>)
         else (case finish st of
                 Eof \<Rightarrow> Inr (incoming st, st\<lparr>incoming := []\<rparr>)
               | Failed k \<Rightarrow> Inl k))"

definition read_frame :: "usize \<Rightarrow> byte_stream \<Rightarrow> io_error_kind + (bytes option \<times> byte_stream)" where
  "read_frame max_frame_bytes st =
     try_bind (take_read_until (unat (max_frame_bytes + 1)) st) (\<lambda>(frame, st').
       if length frame = 0 then Inr (None, st')
       else if length frame > unat max_frame_bytes \<or> \<not> ends_with newline frame then Inl InvalidData
       else Inr (Some frame, st'))"

subsection \<open>The frames of a stream\<close>

definition frame_ok :: "usize \<Rightarrow> bytes \<Rightarrow> bool" where
  "frame_ok max_frame_bytes f \<longleftrightarrow>
     f \<noteq> [] \<and> last f = newline \<and> newline \<notin> set (butlast f) \<and> length f \<le> unat max_frame_bytes"

lemma frame_ok_split:
  assumes "frame_ok m f"
  obtains line where "f = line @ [newline]" "newline \<notin> set line" "length line < unat m"
proof -
  have "f = butlast f @ [newline]"
    using assms append_butlast_last_id [of f] by (simp add: frame_ok_def)
  moreover have "length (butlast f) < unat m"
    using assms by (cases f rule: rev_cases) (auto simp: frame_ok_def)
  ultimately show ?thesis using assms that by (auto simp: frame_ok_def)
qed

lemma unat_limit: "m \<noteq> - 1 \<Longrightarrow> unat (m + 1 :: usize) = unat m + 1"
  using unatSuc [of m] eq_neg_iff_add_eq_0 [of m 1] by (simp add: add.commute)

lemma read_frame_frame:
  assumes "m \<noteq> - 1" "frame_ok m f"
  shows "read_frame m \<lparr>incoming = f @ rest, finish = e\<rparr> = Inr (Some f, \<lparr>incoming = rest, finish = e\<rparr>)"
proof -
  obtain line where f: "f = line @ [newline]" "newline \<notin> set line" "length line < unat m"
    using assms(2) by (rule frame_ok_split)
  have "takeWhile (\<lambda>b. b \<noteq> newline) (f @ rest) = line"
    using f by (auto simp: takeWhile_append)
  then show ?thesis
    using f assms(1)
    by (simp add: read_frame_def take_read_until_def unat_limit ends_with_def)
qed

lemma read_frame_eof:
  "read_frame m \<lparr>incoming = [], finish = Eof\<rparr> = Inr (None, \<lparr>incoming = [], finish = Eof\<rparr>)"
  by (auto simp: read_frame_def take_read_until_def)

lemma read_frame_SomeD:
  assumes "m \<noteq> - 1" "read_frame m st = Inr (Some f, st')"
  shows "frame_ok m f" and "incoming st = f @ incoming st'" and "finish st' = finish st"
proof -
  let ?line = "takeWhile (\<lambda>b. b \<noteq> newline) (incoming st)"
  have read: "take_read_until (unat m + 1) st = Inr (f, st')"
    and f: "f \<noteq> []" "length f \<le> unat m" "last f = newline"
    using assms
    by (auto simp: read_frame_def try_bind_eq_Inr unat_limit ends_with_def split: if_splits)
  have "newline \<in> set (incoming st) \<and> f = ?line @ [newline]
      \<and> st' = st\<lparr>incoming := drop (length ?line + 1) (incoming st)\<rparr>"
  proof (cases "newline \<in> set (incoming st) \<and> length ?line < unat m + 1")
    case True
    with read show ?thesis by (simp add: take_read_until_def Let_def)
  next
    case False
    have whole: "f = incoming st"
      using read f False by (auto simp: take_read_until_def Let_def split: if_splits stream_end.splits)
    then have "newline \<in> set (incoming st)" using f last_in_set [of f] by auto
    moreover then have "dropWhile (\<lambda>b. b \<noteq> newline) (incoming st) \<noteq> []"
      by (auto simp: dropWhile_eq_Nil_conv)
    then have "length ?line < length (incoming st)"
      using arg_cong [OF takeWhile_dropWhile_id [of "\<lambda>b. b \<noteq> newline" "incoming st"], of length]
      by (cases "dropWhile (\<lambda>b. b \<noteq> newline) (incoming st)") auto
    ultimately show ?thesis using False whole f by auto
  qed
  then have nl: "newline \<in> set (incoming st)" and feq: "f = ?line @ [newline]"
    and st': "st' = st\<lparr>incoming := drop (length ?line + 1) (incoming st)\<rparr>" by blast+
  show "frame_ok m f"
    using f feq by (auto simp: frame_ok_def dest: set_takeWhileD)
  have "hd (dropWhile (\<lambda>b. b \<noteq> newline) (incoming st)) = newline"
    and ne: "dropWhile (\<lambda>b. b \<noteq> newline) (incoming st) \<noteq> []"
    using nl hd_dropWhile [of "\<lambda>b. b \<noteq> newline" "incoming st"] by (auto simp: dropWhile_eq_Nil_conv)
  then have "incoming st = ?line @ newline # tl (dropWhile (\<lambda>b. b \<noteq> newline) (incoming st))"
    by (metis list.collapse takeWhile_dropWhile_id)
  moreover have "drop (length ?line + 1) (incoming st) = tl (dropWhile (\<lambda>b. b \<noteq> newline) (incoming st))"
    by (metis dropWhile_eq_drop drop_Suc tl_drop Suc_eq_plus1)
  ultimately show "incoming st = f @ incoming st'"
    using feq st' by simp
  show "finish st' = finish st" using st' by simp
qed

text \<open>The reader loop: frames until the end of the stream or the first error.\<close>

definition usable_limit :: "usize \<Rightarrow> bool" where
  "usable_limit m \<longleftrightarrow> unat m < 2 ^ 64 - 1"

lemma usable_limit_neq: "usable_limit m \<Longrightarrow> m \<noteq> - 1"
  by (auto simp: usable_limit_def unsigned_minus_1_eq_mask mask_eq_exp_minus_1)

lemma read_frame_shorter:
  assumes "read_frame m st = Inr (Some f, st')"
  shows "length (incoming st') < length (incoming st)"
proof -
  have "length frame + length (incoming st'') \<le> length (incoming st)"
    if "take_read_until n st = Inr (frame, st'')" for n frame st''
  proof -
    have "length (takeWhile (\<lambda>b. b \<noteq> newline) (incoming st)) < length (incoming st)"
      if "newline \<in> set (incoming st)"
      using that arg_cong [OF takeWhile_dropWhile_id [of "\<lambda>b. b \<noteq> newline" "incoming st"], of length]
      by (cases "dropWhile (\<lambda>b. b \<noteq> newline) (incoming st)") (auto simp: dropWhile_eq_Nil_conv)
    with that show ?thesis
      by (auto simp: take_read_until_def Let_def split: if_splits stream_end.splits)
  qed
  moreover have "take_read_until (unat (m + 1)) st = Inr (f, st')" "f \<noteq> []"
    using assms by (auto simp: read_frame_def try_bind_eq_Inr split: if_splits)
  ultimately show ?thesis by (cases f) fastforce+
qed

function read_frames :: "usize \<Rightarrow> byte_stream \<Rightarrow> bytes list \<times> io_error_kind option" where
  "read_frames m st =
     (case read_frame m st of
        Inl k \<Rightarrow> ([], Some k)
      | Inr (None, st') \<Rightarrow> ([], None)
      | Inr (Some f, st') \<Rightarrow> (let (fs, e) = read_frames m st' in (f # fs, e)))"
  by pat_completeness auto
termination
  by (relation "measure (\<lambda>(m, st). length (incoming st))") (auto dest: read_frame_shorter)

declare read_frames.simps [simp del]

lemma read_frames_Some:
  "read_frame m st = Inr (Some f, st') \<Longrightarrow>
     read_frames m st = (f # fst (read_frames m st'), snd (read_frames m st'))"
  by (subst read_frames.simps) (simp add: case_prod_beta)

lemma read_frames_concat:
  assumes "usable_limit m" "list_all (frame_ok m) fs"
  shows "read_frames m \<lparr>incoming = concat fs, finish = Eof\<rparr> = (fs, None)"
  using assms(2)
proof (induction fs)
  case Nil
  then show ?case by (subst read_frames.simps) (simp add: read_frame_eof)
next
  case (Cons f fs)
  have "read_frame m \<lparr>incoming = concat (f # fs), finish = Eof\<rparr>
      = Inr (Some f, \<lparr>incoming = concat fs, finish = Eof\<rparr>)"
    using read_frame_frame [of m f "concat fs" Eof] Cons.prems
      usable_limit_neq [OF assms(1)] by simp
  then show ?case
    using Cons by (simp add: read_frames_Some)
qed

lemma read_frames_sound:
  assumes "usable_limit m"
  shows "list_all (frame_ok m) (fst (read_frames m st))
    \<and> (\<exists>rest. incoming st = concat (fst (read_frames m st)) @ rest)"
proof (induction "length (incoming st)" arbitrary: st rule: less_induct)
  case less
  show ?case
  proof (cases "\<exists>f st'. read_frame m st = Inr (Some f, st')")
    case True
    then obtain f st' where f: "read_frame m st = Inr (Some f, st')" by blast
    note ok = read_frame_SomeD [OF usable_limit_neq [OF assms] f]
    have "list_all (frame_ok m) (fst (read_frames m st'))"
      "\<exists>rest. incoming st' = concat (fst (read_frames m st')) @ rest"
      using less.hyps [OF read_frame_shorter [OF f]] by auto
    then show ?thesis using ok by (auto simp: read_frames_Some [OF f])
  next
    case False
    then have "fst (read_frames m st) = []"
      by (subst read_frames.simps) (auto split: sum.splits prod.splits option.splits)
    then show ?thesis by simp
  qed
qed

subsection \<open>What a read that is not a frame returns\<close>

lemma read_frame_oversized:
  assumes "usable_limit m" "unat m < length (incoming st)"
    and "newline \<notin> set (take (unat m) (incoming st))"
  shows "read_frame m st = Inl InvalidData"
proof -
  have lim: "unat (m + 1) = unat m + 1"
    using assms(1) by (intro unat_limit usable_limit_neq)
  let ?line = "takeWhile (\<lambda>b. b \<noteq> newline) (incoming st)"
  have "unat m \<le> length ?line"
  proof -
    have "takeWhile (\<lambda>b. b \<noteq> newline) (incoming st)
        = take (unat m) (incoming st) @ takeWhile (\<lambda>b. b \<noteq> newline) (drop (unat m) (incoming st))"
      using assms(3) by (metis (mono_tags, lifting) append_take_drop_id takeWhile_append2)
    then show ?thesis using assms(2) by simp
  qed
  then show ?thesis
    using assms(2) lim by (auto simp: read_frame_def take_read_until_def Let_def)
qed

lemma read_frame_unterminated:
  assumes "usable_limit m" "incoming st \<noteq> []" "newline \<notin> set (incoming st)" "finish st = Eof"
  shows "read_frame m st = Inl InvalidData"
proof (cases "unat m < length (incoming st)")
  case True
  then show ?thesis
    using assms by (intro read_frame_oversized) (auto dest: in_set_takeD)
next
  case False
  then have "take_read_until (unat (m + 1)) st = Inr (incoming st, st\<lparr>incoming := []\<rparr>)"
    using assms unat_limit [OF usable_limit_neq [OF assms(1)]] by (simp add: take_read_until_def)
  moreover have "last (incoming st) \<noteq> newline"
    using assms(2,3) last_in_set by metis
  ultimately show ?thesis
    using assms(2) by (simp add: read_frame_def ends_with_def)
qed

subsection \<open>Properties of the frame boundary\<close>

text \<open>
  C25: framing is a round trip. The concatenation of frames that each end in their only newline
  and fit the limit is read back as exactly these frames; and whatever a stream holds, the
  frames read from it have that shape and are a prefix of the stream, byte for byte, so that
  nothing is lost, repeated or reordered.
\<close>

theorem read_frames_roundtrip:
  assumes "usable_limit m"
  shows "(list_all (frame_ok m) fs \<longrightarrow>
      read_frames m \<lparr>incoming = concat fs, finish = Eof\<rparr> = (fs, None))
    \<and> list_all (frame_ok m) (fst (read_frames m st))
    \<and> (\<exists>rest. incoming st = concat (fst (read_frames m st)) @ rest)"
  using read_frames_concat [OF assms, of fs]
    read_frames_sound [OF assms, of st] by simp

theorem read_frames_roundtrip_witness:
  "read_frames 1024 \<lparr>incoming = ''ab'' @ [newline] @ ''c'' @ [newline], finish = Eof\<rparr>
     = ([''ab'' @ [newline], ''c'' @ [newline]], None)"
proof -
  have "usable_limit 1024" by (simp add: usable_limit_def)
  moreover have "list_all (frame_ok 1024) [''ab'' @ [newline], ''c'' @ [newline]]"
    by (simp add: frame_ok_def newline_def)
  ultimately show ?thesis
    using read_frames_roundtrip [of 1024 "[''ab'' @ [newline], ''c'' @ [newline]]"] by simp
qed

text \<open>
  C26: a frame that does not fit fails closed. When no newline comes within the limit, and when
  the stream ends in the middle of a frame, the read is the error \<open>InvalidData\<close>; no part of
  the frame is returned.
\<close>

theorem read_frame_fails_closed:
  assumes "usable_limit m"
    and "unat m < length (incoming st) \<and> newline \<notin> set (take (unat m) (incoming st))
         \<or> incoming st \<noteq> [] \<and> newline \<notin> set (incoming st) \<and> finish st = Eof"
  shows "read_frame m st = Inl InvalidData"
  using assms(2)
proof
  assume "unat m < length (incoming st) \<and> newline \<notin> set (take (unat m) (incoming st))"
  with assms(1) show ?thesis by (simp add: read_frame_oversized)
next
  assume "incoming st \<noteq> [] \<and> newline \<notin> set (incoming st) \<and> finish st = Eof"
  with assms(1) show ?thesis by (simp add: read_frame_unterminated)
qed

theorem read_frame_fails_closed_witness:
  "read_frame 2 \<lparr>incoming = ''abc'' @ [newline], finish = Eof\<rparr> = Inl InvalidData
   \<and> read_frame 1024 \<lparr>incoming = ''abc'', finish = Eof\<rparr> = Inl InvalidData"
proof -
  have lim: "usable_limit 2" "usable_limit 1024" by (simp_all add: usable_limit_def)
  have "read_frame 2 \<lparr>incoming = ''abc'' @ [newline], finish = Eof\<rparr> = Inl InvalidData"
    by (rule read_frame_fails_closed [OF lim(1)]) (simp add: newline_def)
  moreover have "read_frame 1024 \<lparr>incoming = ''abc'', finish = Eof\<rparr> = Inl InvalidData"
    by (rule read_frame_fails_closed [OF lim(2)]) (simp add: newline_def)
  ultimately show ?thesis ..
qed

end
