(* ===== verification/Net_Addr.thy ===== *)
theory Net_Addr
  imports Rust_Str
begin

text \<open>
  The addresses of \<open>std::net\<close>: \<open>IpAddr\<close> and \<open>SocketAddr\<close>, the predicates
  \<open>is_loopback\<close> and \<open>is_unspecified\<close>, the text forms (\<open>Display\<close>) and the readers
  (\<open>FromStr\<close>). A reader consumes a prefix of its input and returns the value with the rest,
  or nothing; a whole text is accepted only when nothing is left. The reader is the one the
  library has: decimal octets of at most three digits with no leading zero, hexadecimal groups
  of at most four digits, one double colon that stands for at least one group, a dotted
  address for the last two groups, and for the socket form a bracketed address with an
  optional scope number.
\<close>

datatype ipv4_addr = Ipv4 u8 u8 u8 u8

datatype ipv6_addr = Ipv6 u16 u16 u16 u16 u16 u16 u16 u16

datatype ip_addr = V4 ipv4_addr | V6 ipv6_addr

datatype socket_addr =
    SocketV4 (v4_ip: ipv4_addr) (v4_port: u16)
  | SocketV6 (v6_ip: ipv6_addr) (v6_port: u16) (scope_id: u32)

fun socket_ip :: "socket_addr \<Rightarrow> ip_addr" where
  "socket_ip (SocketV4 a p) = V4 a"
| "socket_ip (SocketV6 a p i) = V6 a"

fun socket_port :: "socket_addr \<Rightarrow> u16" where
  "socket_port (SocketV4 a p) = p"
| "socket_port (SocketV6 a p i) = p"

definition ipv4_LOCALHOST :: ip_addr where
  "ipv4_LOCALHOST = V4 (Ipv4 127 0 0 1)"

definition ipv6_LOCALHOST :: ip_addr where
  "ipv6_LOCALHOST = V6 (Ipv6 0 0 0 0 0 0 0 1)"

fun is_loopback :: "ip_addr \<Rightarrow> bool" where
  "is_loopback (V4 (Ipv4 a b c d)) \<longleftrightarrow> a = 127"
| "is_loopback (V6 a) \<longleftrightarrow> a = Ipv6 0 0 0 0 0 0 0 1"

fun is_unspecified :: "ip_addr \<Rightarrow> bool" where
  "is_unspecified (V4 a) \<longleftrightarrow> a = Ipv4 0 0 0 0"
| "is_unspecified (V6 a) \<longleftrightarrow> a = Ipv6 0 0 0 0 0 0 0 0"

subsection \<open>Text forms\<close>

definition u8_string :: "u8 \<Rightarrow> rstr" where
  "u8_string b = radix_string 10 (unat b)"

definition hex_string :: "u16 \<Rightarrow> rstr" where
  "hex_string g = radix_string 16 (unat g)"

fun ipv4_string :: "ipv4_addr \<Rightarrow> rstr" where
  "ipv4_string (Ipv4 a b c d) =
     u8_string a @ ''.'' @ u8_string b @ ''.'' @ u8_string c @ ''.'' @ u8_string d"

fun segments :: "ipv6_addr \<Rightarrow> u16 list" where
  "segments (Ipv6 a b c d e f g h) = [a, b, c, d, e, f, g, h]"

fun fmt_subslice :: "u16 list \<Rightarrow> rstr" where
  "fmt_subslice [] = []"
| "fmt_subslice (g # gs) = hex_string g @ concat (map (\<lambda>x. CHR '':'' # hex_string x) gs)"

text \<open>
  The longest run of zero groups, the first of them when several are longest: \<open>longest\<close> and
  \<open>current\<close> are pairs of a start and a length.
\<close>

fun zero_span :: "u16 list \<Rightarrow> nat \<Rightarrow> nat \<times> nat \<Rightarrow> nat \<times> nat \<Rightarrow> nat \<times> nat" where
  "zero_span [] i longest current = longest"
| "zero_span (g # gs) i longest current =
     (if g = 0
      then let start = (if snd current = 0 then i else fst current);
               current' = (start, snd current + 1);
               longest' = (if snd current' > snd longest then current' else longest)
           in zero_span gs (i + 1) longest' current'
      else zero_span gs (i + 1) longest (0, 0))"

definition ipv4_of_groups :: "u16 \<Rightarrow> u16 \<Rightarrow> ipv4_addr" where
  "ipv4_of_groups g h =
     Ipv4 (ucast (drop_bit 8 g)) (ucast g) (ucast (drop_bit 8 h)) (ucast h)"

fun to_ipv4_mapped :: "ipv6_addr \<Rightarrow> ipv4_addr option" where
  "to_ipv4_mapped (Ipv6 a b c d e f g h) =
     (if a = 0 \<and> b = 0 \<and> c = 0 \<and> d = 0 \<and> e = 0 \<and> f = 0xFFFF
      then Some (ipv4_of_groups g h) else None)"

definition ipv6_string :: "ipv6_addr \<Rightarrow> rstr" where
  "ipv6_string a =
     (case to_ipv4_mapped a of
        Some v4 \<Rightarrow> ''::ffff:'' @ ipv4_string v4
      | None \<Rightarrow>
          (let segs = segments a; (start, len) = zero_span segs 0 (0, 0) (0, 0)
           in if len > 1
              then fmt_subslice (take start segs) @ ''::'' @ fmt_subslice (drop (start + len) segs)
              else fmt_subslice segs))"

fun ip_string :: "ip_addr \<Rightarrow> rstr" where
  "ip_string (V4 a) = ipv4_string a"
| "ip_string (V6 a) = ipv6_string a"

subsection \<open>Readers\<close>

type_synonym 'a reader = "rstr \<Rightarrow> ('a \<times> rstr) option"

definition read_given_char :: "char \<Rightarrow> unit reader" where
  "read_given_char c s = (if starts_with c s then Some ((), tl s) else None)"

text \<open>
  A number of at most \<open>max_digits\<close> digits (none: any number of them) that is below the bound
  of its type.
\<close>

definition read_number :: "nat \<Rightarrow> nat option \<Rightarrow> bool \<Rightarrow> nat \<Rightarrow> nat reader" where
  "read_number radix max_digits allow_zero_prefix bound s =
     (let ds = takeWhile (is_digit_of radix) s; rest = dropWhile (is_digit_of radix) s
      in if ds = [] then None
         else if (case max_digits of None \<Rightarrow> False | Some m \<Rightarrow> length ds > m) then None
         else if \<not> allow_zero_prefix \<and> hd ds = CHR ''0'' \<and> length ds > 1 then None
         else if digits_value radix ds < bound then Some (digits_value radix ds, rest)
         else None)"

definition read_separator :: "char \<Rightarrow> nat \<Rightarrow> 'a reader \<Rightarrow> 'a reader" where
  "read_separator sep i inner s =
     (if i > 0
      then (case read_given_char sep s of None \<Rightarrow> None | Some (_, s') \<Rightarrow> inner s')
      else inner s)"

definition read_octet :: "nat reader" where
  "read_octet = read_number 10 (Some 3) False 256"

definition read_ipv4_addr :: "ipv4_addr reader" where
  "read_ipv4_addr s =
     (case read_separator CHR ''.'' 0 read_octet s of None \<Rightarrow> None | Some (a, s1) \<Rightarrow>
     (case read_separator CHR ''.'' 1 read_octet s1 of None \<Rightarrow> None | Some (b, s2) \<Rightarrow>
     (case read_separator CHR ''.'' 2 read_octet s2 of None \<Rightarrow> None | Some (c, s3) \<Rightarrow>
     (case read_separator CHR ''.'' 3 read_octet s3 of None \<Rightarrow> None | Some (d, s4) \<Rightarrow>
        Some (Ipv4 (word_of_nat a) (word_of_nat b) (word_of_nat c) (word_of_nat d), s4)))))"

definition read_group :: "nat reader" where
  "read_group = read_number 16 (Some 4) True 65536"

fun groups_of_ipv4 :: "ipv4_addr \<Rightarrow> u16 list" where
  "groups_of_ipv4 (Ipv4 a b c d) = [ucast a * 256 + ucast b, ucast c * 256 + ucast d]"

text \<open>
  Groups from the \<open>i\<close>-th on, with room for the first argument's number of them: the groups
  read, whether the last two came from a dotted address, and the rest.
\<close>

fun read_groups :: "nat \<Rightarrow> nat \<Rightarrow> rstr \<Rightarrow> u16 list \<times> bool \<times> rstr" where
  "read_groups 0 i s = ([], False, s)"
| "read_groups (Suc k) i s =
     (case (if k > 0 then read_separator CHR '':'' i read_ipv4_addr s else None) of
        Some (v4, s') \<Rightarrow> (groups_of_ipv4 v4, True, s')
      | None \<Rightarrow>
          (case read_separator CHR '':'' i read_group s of
             None \<Rightarrow> ([], False, s)
           | Some (g, s') \<Rightarrow>
               (let (gs, dotted, s'') = read_groups k (i + 1) s'
                in (word_of_nat g # gs, dotted, s''))))"

fun ipv6_of_groups :: "u16 list \<Rightarrow> ipv6_addr option" where
  "ipv6_of_groups [a, b, c, d, e, f, g, h] = Some (Ipv6 a b c d e f g h)"
| "ipv6_of_groups _ = None"

definition read_ipv6_addr :: "ipv6_addr reader" where
  "read_ipv6_addr s =
     (let (head, dotted, s1) = read_groups 8 0 s
      in if length head = 8 then map_option (\<lambda>a. (a, s1)) (ipv6_of_groups head)
         else if dotted then None
         else (case read_given_char CHR '':'' s1 of None \<Rightarrow> None | Some (_, s2) \<Rightarrow>
              (case read_given_char CHR '':'' s2 of None \<Rightarrow> None | Some (_, s3) \<Rightarrow>
              (let (tail, _, s4) = read_groups (8 - (length head + 1)) 0 s3
               in map_option (\<lambda>a. (a, s4))
                    (ipv6_of_groups
                      (head @ replicate (8 - length head - length tail) 0 @ tail))))))"

definition read_ip_addr :: "ip_addr reader" where
  "read_ip_addr s =
     (case read_ipv4_addr s of
        Some (a, s') \<Rightarrow> Some (V4 a, s')
      | None \<Rightarrow> (case read_ipv6_addr s of Some (a, s') \<Rightarrow> Some (V6 a, s') | None \<Rightarrow> None))"

definition read_port :: "u16 reader" where
  "read_port s =
     (case read_given_char CHR '':'' s of None \<Rightarrow> None | Some (_, s') \<Rightarrow>
        map_option (\<lambda>(n, r). (word_of_nat n, r)) (read_number 10 None True 65536 s'))"

definition read_scope_id :: "u32 reader" where
  "read_scope_id s =
     (case read_given_char CHR ''%'' s of None \<Rightarrow> None | Some (_, s') \<Rightarrow>
        map_option (\<lambda>(n, r). (word_of_nat n, r)) (read_number 10 None True (2 ^ 32) s'))"

definition read_socket_addr_v4 :: "socket_addr reader" where
  "read_socket_addr_v4 s =
     (case read_ipv4_addr s of None \<Rightarrow> None | Some (a, s1) \<Rightarrow>
     (case read_port s1 of None \<Rightarrow> None | Some (p, s2) \<Rightarrow> Some (SocketV4 a p, s2)))"

definition read_socket_addr_v6 :: "socket_addr reader" where
  "read_socket_addr_v6 s =
     (case read_given_char CHR ''['' s of None \<Rightarrow> None | Some (_, s1) \<Rightarrow>
     (case read_ipv6_addr s1 of None \<Rightarrow> None | Some (a, s2) \<Rightarrow>
     (let (scope, s3) = (case read_scope_id s2 of Some r \<Rightarrow> r | None \<Rightarrow> (0, s2))
      in case read_given_char CHR '']'' s3 of None \<Rightarrow> None | Some (_, s4) \<Rightarrow>
        (case read_port s4 of None \<Rightarrow> None | Some (p, s5) \<Rightarrow> Some (SocketV6 a p scope, s5)))))"

definition read_socket_addr :: "socket_addr reader" where
  "read_socket_addr s =
     (case read_socket_addr_v4 s of Some r \<Rightarrow> Some r | None \<Rightarrow> read_socket_addr_v6 s)"

definition parse_with :: "'a reader \<Rightarrow> rstr \<Rightarrow> 'a option" where
  "parse_with inner s = (case inner s of Some (x, []) \<Rightarrow> Some x | _ \<Rightarrow> None)"

definition parse_ip_addr :: "rstr \<Rightarrow> ip_addr option" where
  "parse_ip_addr = parse_with read_ip_addr"

definition parse_socket_addr :: "rstr \<Rightarrow> socket_addr option" where
  "parse_socket_addr = parse_with read_socket_addr"

subsection \<open>Reading back a number\<close>

definition ends_digits :: "nat \<Rightarrow> rstr \<Rightarrow> bool" where
  "ends_digits radix rest \<longleftrightarrow> rest = [] \<or> \<not> is_digit_of radix (hd rest)"

lemma takeWhile_digits:
  "list_all P xs \<Longrightarrow> rest = [] \<or> \<not> P (hd rest) \<Longrightarrow>
     takeWhile P (xs @ rest) = xs \<and> dropWhile P (xs @ rest) = rest"
  by (cases rest) (auto simp: takeWhile_append dropWhile_append list_all_iff)

lemma read_number_radix_string:
  assumes "2 \<le> radix" "radix \<le> 36" "ends_digits radix rest" "n < bound"
    and "\<And>m. max_digits = Some m \<Longrightarrow> length (radix_string radix n) \<le> m"
  shows "read_number radix max_digits allow bound (radix_string radix n @ rest) = Some (n, rest)"
proof -
  let ?ds = "radix_string radix n"
  have "takeWhile (is_digit_of radix) (?ds @ rest) = ?ds"
    "dropWhile (is_digit_of radix) (?ds @ rest) = rest"
    using takeWhile_digits [OF radix_string_digits [OF assms(1,2)], of rest n] assms(3)
    by (auto simp: ends_digits_def)
  moreover have "hd ?ds = CHR ''0'' \<Longrightarrow> length ?ds = 1"
    using hd_radix_string [OF assms(1,2), of n] assms(1) by (simp add: radix_string.simps [of radix 0])
  moreover have "digits_value radix ?ds = n"
    by (rule digits_value_radix_string [OF assms(1,2)])
  ultimately show ?thesis
    using assms(4,5) by (auto simp: read_number_def Let_def split: option.splits)
qed

lemma read_octet_string:
  assumes "ends_digits 10 rest"
  shows "read_octet (u8_string b @ rest) = Some (unat b, rest)"
proof -
  have "unat b < 256" using unsigned_less [of b] by simp
  moreover then have "length (radix_string 10 (unat b)) \<le> 3"
    by (intro length_radix_string) auto
  ultimately show ?thesis
    unfolding read_octet_def u8_string_def using assms
    by (intro read_number_radix_string) auto
qed

lemma read_group_string:
  assumes "ends_digits 16 rest"
  shows "read_group (hex_string g @ rest) = Some (unat g, rest)"
proof -
  have "unat g < 65536" using unsigned_less [of g] by simp
  moreover then have "length (radix_string 16 (unat g)) \<le> 4"
    by (intro length_radix_string) auto
  ultimately show ?thesis
    unfolding read_group_def hex_string_def using assms
    by (intro read_number_radix_string) auto
qed

lemma ends_digits_simps [simp]:
  "ends_digits radix []"
  "ends_digits radix (c # s) \<longleftrightarrow> \<not> is_digit_of radix c"
  by (simp_all add: ends_digits_def)

lemma not_digit_punct [simp]:
  "\<not> is_digit_of 10 CHR ''.''" "\<not> is_digit_of 10 CHR '':''"
  "\<not> is_digit_of 16 CHR ''.''" "\<not> is_digit_of 16 CHR '':''"
  "\<not> is_digit_of 16 CHR '']''" "\<not> is_digit_of 16 CHR ''%''"
  by (simp_all add: decimal_digit_ascii hex_digit_ascii is_ascii_digit_def is_ascii_hexdigit_def)

lemma read_given_char_simps [simp]:
  "read_given_char c (c # s) = Some ((), s)"
  "c \<noteq> d \<Longrightarrow> read_given_char c (d # s) = None"
  "read_given_char c [] = None"
  by (simp_all add: read_given_char_def starts_with_def)

subsection \<open>Reading back a dotted address\<close>

lemma read_ipv4_string:
  assumes "ends_digits 10 rest"
  shows "read_ipv4_addr (ipv4_string a @ rest) = Some (a, rest)"
  using assms
  by (cases a) (simp add: read_ipv4_addr_def read_separator_def read_octet_string)

lemma read_ipv4_addr_dot:
  "read_ipv4_addr s = Some r \<Longrightarrow> starts_with CHR ''.'' (dropWhile (is_digit_of 10) s)"
  by (auto simp: read_ipv4_addr_def read_separator_def read_octet_def read_number_def
      read_given_char_def Let_def split: option.splits if_splits prod.splits)

definition after_group :: "rstr \<Rightarrow> bool" where
  "after_group rest \<longleftrightarrow> rest = [] \<or> (hd rest \<noteq> CHR ''.'' \<and> \<not> is_digit_of 16 (hd rest))"

lemma hex_string_chars: "list_all (is_digit_of 16) (hex_string g)"
  by (simp add: hex_string_def radix_string_digits)

lemma hex_string_ne [simp]: "hex_string g \<noteq> []"
  by (simp add: hex_string_def)

lemma dropWhile_append_hd:
  "dropWhile P (xs @ ys) = [] \<or> hd (dropWhile P (xs @ ys)) \<in> set xs
     \<or> dropWhile P (xs @ ys) = dropWhile P ys"
  by (induction xs) auto

lemma decimal_is_hex: "is_digit_of 10 c \<Longrightarrow> is_digit_of 16 c"
  by (simp add: decimal_digit_ascii hex_digit_ascii is_ascii_hexdigit_def)

lemma read_ipv4_hex_None:
  assumes "after_group rest"
  shows "read_ipv4_addr (hex_string g @ rest) = None"
proof (rule ccontr)
  assume "read_ipv4_addr (hex_string g @ rest) \<noteq> None"
  then have dot: "starts_with CHR ''.'' (dropWhile (is_digit_of 10) (hex_string g @ rest))"
    using read_ipv4_addr_dot by blast
  have "dropWhile (is_digit_of 10) rest = rest"
    using assms by (cases rest) (auto simp: after_group_def dest: decimal_is_hex)
  moreover have "CHR ''.'' \<notin> set (hex_string g)"
    using hex_string_chars [of g] by (auto simp: list_all_iff)
  ultimately show False
    using dropWhile_append_hd [of "is_digit_of 10" "hex_string g" rest] dot assms
    by (auto simp: starts_with_def after_group_def)
qed

lemma read_ipv4_colon_None [simp]: "read_ipv4_addr (CHR '':'' # s) = None"
  using read_ipv4_addr_dot [of "CHR '':'' # s"] by (cases "read_ipv4_addr (CHR '':'' # s)")
    (auto simp: starts_with_def)

lemma read_ipv4_Nil_None [simp]: "read_ipv4_addr [] = None"
  using read_ipv4_addr_dot [of "[]"] by (cases "read_ipv4_addr []") (auto simp: starts_with_def)

subsection \<open>Reading back a list of groups\<close>

definition after_groups :: "rstr \<Rightarrow> bool" where
  "after_groups rest \<longleftrightarrow> after_group rest \<and>
     (starts_with CHR '':'' rest \<longrightarrow> starts_with CHR '':'' (tl rest))"

abbreviation colon_groups :: "u16 list \<Rightarrow> rstr" where
  "colon_groups gs \<equiv> concat (map (\<lambda>x. CHR '':'' # hex_string x) gs)"

lemma read_group_not_digit: "ends_digits 16 s \<Longrightarrow> read_group s = None"
  by (cases s) (auto simp: read_group_def read_number_def Let_def)

lemma after_group_ends: "after_group rest \<Longrightarrow> ends_digits 16 rest"
  by (auto simp: after_group_def ends_digits_def)

lemma read_ipv4_after_None: "after_group rest \<Longrightarrow> read_ipv4_addr rest = None"
proof (rule ccontr)
  assume after: "after_group rest" and "read_ipv4_addr rest \<noteq> None"
  then have "starts_with CHR ''.'' (dropWhile (is_digit_of 10) rest)"
    using read_ipv4_addr_dot by blast
  moreover have "dropWhile (is_digit_of 10) rest = rest"
    using after by (cases rest) (auto simp: after_group_def dest: decimal_is_hex)
  ultimately show False
    using after by (auto simp: after_group_def starts_with_def)
qed

lemma read_groups_stop:
  assumes "after_groups rest"
  shows "read_groups k i rest = ([], False, rest)"
proof (cases k)
  case (Suc k')
  have after: "after_group rest" using assms by (simp add: after_groups_def)
  have inner: "read_ipv4_addr rest = None" "read_group rest = None"
    by (simp_all add: after read_ipv4_after_None read_group_not_digit after_group_ends)
  have "read_separator CHR '':'' i read_ipv4_addr rest = None
    \<and> read_separator CHR '':'' i read_group rest = None"
  proof (cases "starts_with CHR '':'' rest")
    case True
    then obtain s where "rest = CHR '':'' # CHR '':'' # s"
      using assms by (cases rest; cases "tl rest") (auto simp: after_groups_def starts_with_def)
    with inner show ?thesis by (simp add: read_separator_def read_group_not_digit)
  next
    case False
    with inner show ?thesis by (simp add: read_separator_def read_given_char_def)
  qed
  with Suc show ?thesis by simp
qed simp

lemma after_group_colon_groups: "after_group rest \<Longrightarrow> after_group (colon_groups gs @ rest)"
  by (cases gs) (auto simp: after_group_def)

lemma read_groups_colon:
  "after_groups rest \<Longrightarrow> length gs \<le> k \<Longrightarrow> 0 < i \<Longrightarrow>
     read_groups k i (colon_groups gs @ rest) = (gs, False, rest)"
proof (induction gs arbitrary: k i)
  case Nil
  then show ?case by (simp add: read_groups_stop)
next
  case (Cons g gs)
  then obtain k' where k: "k = Suc k'" by (cases k) auto
  have after: "after_group (colon_groups gs @ rest)"
    using Cons.prems(1) by (intro after_group_colon_groups) (simp add: after_groups_def)
  have "read_groups k' (Suc i) (colon_groups gs @ rest) = (gs, False, rest)"
    using Cons k by simp
  with k Cons.prems(2,3) show ?case
    by (auto simp: read_separator_def read_ipv4_hex_None [OF after]
        read_group_string [OF after_group_ends [OF after]])
qed

lemma read_groups_fmt:
  assumes "after_groups rest" "length gs \<le> k"
  shows "read_groups k 0 (fmt_subslice gs @ rest) = (gs, False, rest)"
proof (cases gs)
  case Nil
  with assms show ?thesis by (simp add: read_groups_stop)
next
  case (Cons g gs')
  then obtain k' where k: "k = Suc k'" using assms(2) by (cases k) auto
  have after: "after_group (colon_groups gs' @ rest)"
    using assms(1) by (intro after_group_colon_groups) (simp add: after_groups_def)
  have "read_groups k' (Suc 0) (colon_groups gs' @ rest) = (gs', False, rest)"
    using assms Cons k by (intro read_groups_colon) auto
  with k Cons assms(2) show ?thesis
    by (auto simp: read_separator_def read_ipv4_hex_None [OF after]
        read_group_string [OF after_group_ends [OF after]])
qed

subsection \<open>The run of zero groups\<close>

definition zero_run :: "u16 list \<Rightarrow> nat \<times> nat \<Rightarrow> bool" where
  "zero_run gs span \<longleftrightarrow> fst span + snd span \<le> length gs
     \<and> (\<forall>j. fst span \<le> j \<and> j < fst span + snd span \<longrightarrow> gs ! j = 0)"

lemma zero_run_append: "zero_run pre span \<Longrightarrow> zero_run (pre @ gs) span"
  by (auto simp: zero_run_def nth_append)

lemma zero_span_run:
  "zero_run pre longest \<Longrightarrow> zero_run pre current \<Longrightarrow>
   0 < snd current \<longrightarrow> fst current + snd current = length pre \<Longrightarrow>
   zero_run (pre @ gs) (zero_span gs (length pre) longest current)"
proof (induction gs arbitrary: pre longest current)
  case Nil
  then show ?case by simp
next
  case (Cons g gs)
  show ?case
  proof (cases "g = 0")
    case True
    let ?start = "if snd current = 0 then length pre else fst current"
    let ?cur = "(?start, snd current + 1)"
    let ?long = "if snd ?cur > snd longest then ?cur else longest"
    have cur: "zero_run (pre @ [g]) ?cur"
      using Cons.prems(2,3) True by (auto simp: zero_run_def nth_append less_Suc_eq)
    moreover have "zero_run (pre @ [g]) ?long"
      using cur zero_run_append [OF Cons.prems(1)] by simp
    moreover have "fst ?cur + snd ?cur = length (pre @ [g])"
      using Cons.prems(3) by auto
    ultimately have "zero_run ((pre @ [g]) @ gs) (zero_span gs (length (pre @ [g])) ?long ?cur)"
      by (intro Cons.IH) simp_all
    moreover have "zero_span (g # gs) (length pre) longest current
        = zero_span gs (length (pre @ [g])) ?long ?cur"
      using True by (simp only: zero_span.simps Let_def if_True length_append) simp
    ultimately show ?thesis by simp
  next
    case False
    have "zero_run ((pre @ [g]) @ gs) (zero_span gs (length (pre @ [g])) longest (0, 0))"
      using zero_run_append [OF Cons.prems(1), of "[g]"] by (intro Cons.IH) (simp_all add: zero_run_def)
    with False show ?thesis by simp
  qed
qed

lemma zero_span_split:
  assumes "zero_span gs 0 (0, 0) (0, 0) = (start, len)"
  shows "gs = take start gs @ replicate len 0 @ drop (start + len) gs" and "start + len \<le> length gs"
proof -
  have run: "zero_run gs (start, len)"
    using zero_span_run [of "[]" "(0, 0)" "(0, 0)" gs] assms by (simp add: zero_run_def)
  then show le: "start + len \<le> length gs" by (simp add: zero_run_def)
  have "take len (drop start gs) = replicate len 0"
    using run le by (intro nth_equalityI) (auto simp: zero_run_def)
  moreover have "gs = take start gs @ take len (drop start gs) @ drop len (drop start gs)"
    by (simp only: append_take_drop_id)
  ultimately show "gs = take start gs @ replicate len 0 @ drop (start + len) gs"
    by (simp add: add.commute)
qed

subsection \<open>Reading back a colon address\<close>

lemma ipv6_of_segments [simp]: "ipv6_of_groups (segments a) = Some a"
  by (cases a) simp

lemma length_segments [simp]: "length (segments a) = 8"
  by (cases a) simp

lemma read_ipv6_full:
  assumes "after_groups rest"
  shows "read_ipv6_addr (fmt_subslice (segments a) @ rest) = Some (a, rest)"
  using read_groups_fmt [OF assms, of "segments a" 8] by (simp add: read_ipv6_addr_def)

lemma after_groups_double_colon [simp]: "after_groups (CHR '':'' # CHR '':'' # s)"
  by (simp add: after_groups_def after_group_def starts_with_def)

lemma read_ipv6_compressed:
  assumes rest: "after_groups rest" and len: "length pre + length post < 8"
    and segs: "segments a = pre @ replicate (8 - length pre - length post) 0 @ post"
  shows "read_ipv6_addr (fmt_subslice pre @ ''::'' @ fmt_subslice post @ rest) = Some (a, rest)"
proof -
  have "read_groups 8 0 (fmt_subslice pre @ ''::'' @ fmt_subslice post @ rest)
      = (pre, False, ''::'' @ fmt_subslice post @ rest)"
    using read_groups_fmt [of "''::'' @ fmt_subslice post @ rest" pre 8] len by simp
  moreover have "read_groups (8 - (length pre + 1)) 0 (fmt_subslice post @ rest) = (post, False, rest)"
    using rest len by (intro read_groups_fmt) auto
  ultimately show ?thesis
    using len ipv6_of_segments [of a] by (simp add: read_ipv6_addr_def segs)
qed

lemma groups_of_ipv4_of_groups: "groups_of_ipv4 (ipv4_of_groups g h) = [g, h]"
proof -
  have "(ucast (ucast (drop_bit 8 x) :: u8) * 256 + ucast (ucast x :: u8) :: u16) = x" for x :: u16
  proof -
    have "unat x < 65536" using unsigned_less [of x] by simp
    moreover have "unat (ucast (drop_bit 8 x) :: u8) = unat x div 256"
      using \<open>unat x < 65536\<close>
      by (simp add: unsigned_ucast_eq take_bit_eq_mod unsigned_drop_bit_eq drop_bit_eq_div
          unat_div_distrib)
    moreover have "unat (ucast x :: u8) = unat x mod 256"
      by (simp add: unsigned_ucast_eq take_bit_eq_mod)
    ultimately show ?thesis
      by (intro word_unat_eq_iff [THEN iffD2])
        (simp add: unat_word_ariths unsigned_ucast_eq take_bit_eq_mod)
  qed
  then show ?thesis by (simp add: ipv4_of_groups_def)
qed

lemma read_ipv6_mapped:
  assumes rest: "ends_digits 10 rest" and a: "to_ipv4_mapped a = Some v4"
  shows "read_ipv6_addr (''::ffff:'' @ ipv4_string v4 @ rest) = Some (a, rest)"
proof -
  obtain g h where a_eq: "a = Ipv6 0 0 0 0 0 0xFFFF g h" and v4: "v4 = ipv4_of_groups g h"
    using a by (cases a) (auto split: if_splits)
  have hex: "hex_string 0xFFFF = ''ffff''"
    by code_simp
  have after: "after_group (CHR '':'' # ipv4_string v4 @ rest)"
    by (simp add: after_group_def)
  have "read_groups (Suc k) 1 (CHR '':'' # ipv4_string v4 @ rest) = ([g, h], True, rest)"
    if "0 < k" for k
    using that by (simp add: read_separator_def read_ipv4_string [OF rest] v4 groups_of_ipv4_of_groups)
  then have "read_groups (Suc (Suc k)) 0 (hex_string 0xFFFF @ CHR '':'' # ipv4_string v4 @ rest)
      = ([0xFFFF, g, h], True, rest)" if "0 < k" for k
    using that
    by (simp add: read_separator_def read_ipv4_hex_None [OF after]
        read_group_string [OF after_group_ends [OF after]] del: read_groups.simps(2))
      (simp add: read_separator_def read_ipv4_hex_None [OF after]
        read_group_string [OF after_group_ends [OF after]])
  from this [of 5] have "read_groups 7 0 (hex_string 0xFFFF @ CHR '':'' # ipv4_string v4 @ rest)
      = ([0xFFFF, g, h], True, rest)"
    by simp
  moreover have "read_groups 8 0 (''::'' @ s) = ([], False, ''::'' @ s)" for s
    by (simp add: read_groups_stop)
  ultimately show ?thesis
    unfolding a_eq by (simp add: read_ipv6_addr_def hex eval_nat_numeral)
qed

lemma read_ipv6_string:
  assumes "after_groups rest" "ends_digits 10 rest"
  shows "read_ipv6_addr (ipv6_string a @ rest) = Some (a, rest)"
proof (cases "to_ipv4_mapped a")
  case (Some v4)
  then show ?thesis
    using read_ipv6_mapped [OF assms(2) Some] by (simp add: ipv6_string_def)
next
  case None
  obtain start len where span: "zero_span (segments a) 0 (0, 0) (0, 0) = (start, len)"
    by fastforce
  let ?pre = "take start (segments a)" and ?post = "drop (start + len) (segments a)"
  note split = zero_span_split [OF span]
  show ?thesis
  proof (cases "len > 1")
    case True
    have "8 - length ?pre - length ?post = len" "length ?pre + length ?post < 8"
      using split(2) True by auto
    then have "read_ipv6_addr (fmt_subslice ?pre @ ''::'' @ fmt_subslice ?post @ rest) = Some (a, rest)"
      using split(1) assms(1) by (intro read_ipv6_compressed) auto
    then show ?thesis
      using None span True by (simp add: ipv6_string_def Let_def)
  next
    case False
    then show ?thesis
      using None span read_ipv6_full [OF assms(1)] by (simp add: ipv6_string_def Let_def)
  qed
qed

lemma ipv6_string_not_ipv4: "after_group rest \<Longrightarrow> read_ipv4_addr (ipv6_string a @ rest) = None"
proof -
  assume rest: "after_group rest"
  have fmt: "read_ipv4_addr (fmt_subslice gs @ s) = None" if "after_group s" for gs s
    using that
    by (cases gs) (simp_all add: read_ipv4_after_None read_ipv4_hex_None after_group_colon_groups)
  have cc: "after_group (CHR '':'' # s)" for s
    by (simp add: after_group_def)
  show ?thesis
    using rest
    by (auto simp: ipv6_string_def Let_def fmt cc split: option.splits prod.splits)
qed

subsection \<open>The text forms read back\<close>

lemma parse_ip_string: "parse_ip_addr (ip_string a) = Some a"
proof (cases a)
  case (V4 x)
  then show ?thesis
    using read_ipv4_string [of "[]" x] by (simp add: parse_ip_addr_def parse_with_def read_ip_addr_def)
next
  case (V6 x)
  have "after_groups []" by (simp add: after_groups_def after_group_def starts_with_def)
  then show ?thesis
    using V6 read_ipv6_string [of "[]" x] ipv6_string_not_ipv4 [of "[]" x]
    by (simp add: parse_ip_addr_def parse_with_def read_ip_addr_def after_group_def)
qed

lemma read_port_string: "read_port (CHR '':'' # u16_string p) = Some (p, [])"
proof -
  have "unat p < 65536" using unsigned_less [of p] by simp
  then have "read_number 10 None True 65536 (radix_string 10 (unat p) @ []) = Some (unat p, [])"
    by (intro read_number_radix_string) auto
  then show ?thesis by (simp add: read_port_def u16_string_def)
qed

lemma parse_socket_v4_string:
  "parse_socket_addr (ipv4_string a @ '':'' @ u16_string p) = Some (SocketV4 a p)"
  using read_ipv4_string [of "'':'' @ u16_string p" a]
  by (simp add: parse_socket_addr_def parse_with_def read_socket_addr_def
      read_socket_addr_v4_def read_port_string)

lemma parse_socket_v6_string:
  "parse_socket_addr (''['' @ ipv6_string a @ '']:'' @ u16_string p) = Some (SocketV6 a p 0)"
proof -
  have after: "after_groups ('']:'' @ u16_string p)" "ends_digits 10 ('']:'' @ u16_string p)"
    by (simp_all add: after_groups_def after_group_def starts_with_def decimal_digit_ascii
        is_ascii_digit_def)
  have "after_group (CHR ''['' # s)" for s
    by (simp add: after_group_def hex_digit_ascii is_ascii_hexdigit_def is_ascii_digit_def)
  then have "read_ipv4_addr (CHR ''['' # s) = None" for s
    by (rule read_ipv4_after_None)
  then show ?thesis
    using read_ipv6_string [OF after, of a]
    by (simp add: parse_socket_addr_def parse_with_def read_socket_addr_def read_port_string
      read_socket_addr_v4_def read_socket_addr_v6_def read_scope_id_def)
qed

subsection \<open>What a reader accepts is the text form\<close>

lemma digits_value_Cons:
  "digits_value radix (c # s) = the (to_digit radix c) * radix ^ length s + digits_value radix s"
proof -
  have "foldl (\<lambda>a c. a * radix + the (to_digit radix c)) x s
      = x * radix ^ length s + foldl (\<lambda>a c. a * radix + the (to_digit radix c)) 0 s" for x
    by (induction s rule: rev_induct) (simp_all add: algebra_simps)
  from this [of "the (to_digit radix c)"] show ?thesis
    by (simp add: digits_value_def)
qed

lemma digits_value_less: "0 < radix \<Longrightarrow> list_all (is_digit_of radix) s \<Longrightarrow> digits_value radix s < radix ^ length s"
proof (induction s rule: rev_induct)
  case Nil
  then show ?case by (simp add: digits_value_def)
next
  case (snoc c s)
  then have "the (to_digit radix c) < radix"
    by (auto simp: is_digit_of_def to_digit_def Let_def split: if_splits)
  moreover have "digits_value radix s + 1 \<le> radix ^ length s"
    using snoc by simp
  then have "(digits_value radix s + 1) * radix \<le> radix ^ length s * radix"
    by (rule mult_le_mono1)
  ultimately show ?case by (simp add: algebra_simps)
qed

lemma decimal_digit_char: "is_digit_of 10 c \<Longrightarrow> digit_char (the (to_digit 10 c)) = c"
  by (auto simp: decimal_digit_ascii digit_char_def to_digit_def is_ascii_digit_def Let_def)

lemma decimal_hd_pos:
  assumes "list_all (is_digit_of 10) s" "s \<noteq> []" "hd s \<noteq> CHR ''0''"
  shows "0 < digits_value 10 s"
proof -
  obtain c t where s: "s = c # t" using assms(2) by (cases s) auto
  have "c \<noteq> CHR ''0''" "is_ascii_digit c"
    using assms s by (auto simp: decimal_digit_ascii)
  moreover have "code_of c \<noteq> 48"
  proof
    assume "code_of c = 48"
    then have "char_of (code_of c) = char_of (48 :: nat)" by (rule arg_cong)
    moreover have "char_of (48 :: nat) = CHR ''0''" by code_simp
    ultimately show False using \<open>c \<noteq> CHR ''0''\<close> by simp
  qed
  ultimately have "0 < the (to_digit 10 c)"
    by (auto simp: to_digit_def is_ascii_digit_def Let_def)
  then show ?thesis by (simp add: s digits_value_Cons)
qed

lemma radix_string_digits_value:
  "list_all (is_digit_of 10) s \<Longrightarrow> s \<noteq> [] \<Longrightarrow> hd s \<noteq> CHR ''0'' \<or> length s \<le> 1 \<Longrightarrow>
     radix_string 10 (digits_value 10 s) = s"
proof (induction s rule: rev_induct)
  case Nil
  then show ?case by simp
next
  case (snoc c s)
  let ?d = "the (to_digit 10 c)"
  have d: "?d < 10" "digit_char ?d = c"
    using snoc.prems(1) decimal_digit_char
    by (auto simp: is_digit_of_def to_digit_def Let_def split: if_splits)
  show ?case
  proof (cases "s = []")
    case True
    with d show ?thesis
      by (simp add: digits_value_def radix_string.simps [of 10 "?d"])
  next
    case False
    then have hd: "hd s \<noteq> CHR ''0''" using snoc.prems(3) by auto
    have pos: "0 < digits_value 10 s"
      using snoc.prems(1) False hd by (intro decimal_hd_pos) auto
    have "radix_string 10 (digits_value 10 s) = s"
      using snoc False hd by simp
    with d pos show ?thesis
      by (simp add: radix_string.simps [of 10 "digits_value 10 s * 10 + ?d"])
  qed
qed

lemma read_octet_SomeD:
  assumes "read_octet s = Some (n, rest)"
  shows "s = u8_string (word_of_nat n) @ rest"
proof -
  let ?ds = "takeWhile (is_digit_of 10) s"
  have n: "n = digits_value 10 ?ds" "n < 256" and rest: "rest = dropWhile (is_digit_of 10) s"
    and ds: "?ds \<noteq> []" "hd ?ds \<noteq> CHR ''0'' \<or> length ?ds \<le> 1"
    using assms
    by (auto simp: read_octet_def read_number_def Let_def split: if_splits)
  have "list_all (is_digit_of 10) ?ds"
    by (auto simp: list_all_iff dest: set_takeWhileD)
  then have "radix_string 10 n = ?ds"
    unfolding n(1) using ds by (intro radix_string_digits_value)
  moreover have "unat (word_of_nat n :: u8) = n"
    using n(2) by (simp add: unat_of_nat take_bit_eq_mod)
  ultimately show ?thesis
    using takeWhile_dropWhile_id [of "is_digit_of 10" s] rest by (simp add: u8_string_def)
qed

lemma read_given_char_SomeD: "read_given_char c s = Some (u, rest) \<Longrightarrow> s = c # rest"
  by (cases s) (auto simp: read_given_char_def starts_with_def split: if_splits)

lemma read_ipv4_addr_SomeD: "read_ipv4_addr s = Some (a, rest) \<Longrightarrow> s = ipv4_string a @ rest"
  by (auto simp: read_ipv4_addr_def read_separator_def split: option.splits prod.splits
      dest!: read_octet_SomeD read_given_char_SomeD)

lemma read_groups_no_colon: "CHR '':'' \<notin> set s \<Longrightarrow> 0 < i \<Longrightarrow> read_groups k i s = ([], False, s)"
  by (cases k; cases s) (auto simp: read_separator_def read_given_char_def starts_with_def)

lemma read_group_rest: "read_group s = Some (n, rest) \<Longrightarrow> set rest \<subseteq> set s"
  by (auto simp: read_group_def read_number_def Let_def split: if_splits dest: set_dropWhileD)

lemma read_ipv6_addr_colon:
  assumes "read_ipv6_addr s = Some r"
  shows "CHR '':'' \<in> set s"
proof (rule ccontr)
  assume no: "CHR '':'' \<notin> set s"
  have "read_groups (Suc k) 0 s = (head, dotted, s1) \<Longrightarrow>
      dotted \<and> length head = 2 \<or> \<not> dotted \<and> length head < 2 \<and> CHR '':'' \<notin> set s1" for k head dotted s1
  proof -
    assume r: "read_groups (Suc k) 0 s = (head, dotted, s1)"
    have "read_groups k (Suc 0) s' = ([], False, s')" if "read_group s = Some (n, s')" for n s'
      using read_group_rest [OF that] no by (intro read_groups_no_colon) auto
    moreover have "length (groups_of_ipv4 a) = 2" for a
      by (cases a) simp
    ultimately show ?thesis
      using r no by (auto simp: read_separator_def split: option.splits if_splits prod.splits
        dest: read_group_rest)
  qed
  from this [of 7] show False
    using assms
    by (auto simp: read_ipv6_addr_def read_given_char_def starts_with_def Let_def
        split: prod.splits if_splits option.splits) (metis hd_in_set)
qed

subsection \<open>Readers on longer inputs\<close>

lemma u8_string_digits: "list_all is_ascii_digit (u8_string b)"
  using radix_string_digits [of 10 "unat b"]
  by (simp add: u8_string_def list_all_iff decimal_digit_ascii)

lemma ipv4_string_chars: "\<forall>c \<in> set (ipv4_string a). is_ascii_digit c \<or> c = CHR ''.''"
  using u8_string_digits by (cases a) (auto simp: list_all_iff)

text \<open>
  What a reader consumes. A reader of addresses does not look past a character that it cannot
  consume, so a result is the same when the input is extended by such a text.
\<close>

definition address_chars :: "char set" where
  "address_chars = {c. is_ascii_hexdigit c \<or> c = CHR ''.'' \<or> c = CHR '':''}"

definition ends_address :: "rstr \<Rightarrow> bool" where
  "ends_address r \<longleftrightarrow> r \<noteq> [] \<and> hd r \<notin> address_chars"

definition extensible :: "'a reader \<Rightarrow> bool" where
  "extensible f \<longleftrightarrow> (\<forall>s r. ends_address r \<longrightarrow> f (s @ r) = map_option (\<lambda>(x, t). (x, t @ r)) (f s))"

definition consumes :: "'a reader \<Rightarrow> bool" where
  "consumes f \<longleftrightarrow> (\<forall>s x t. f s = Some (x, t) \<longrightarrow> (\<exists>p. s = p @ t \<and> set p \<subseteq> address_chars))"

lemma extensibleD: "extensible f \<Longrightarrow> ends_address r \<Longrightarrow> f (s @ r) = map_option (\<lambda>(x, t). (x, t @ r)) (f s)"
  by (simp add: extensible_def)

lemma ends_address_digit: "ends_address r \<Longrightarrow> radix = 10 \<or> radix = 16 \<Longrightarrow> \<not> is_digit_of radix (hd r)"
  by (auto simp: ends_address_def address_chars_def decimal_digit_ascii hex_digit_ascii is_ascii_hexdigit_def)

lemma digits_extended:
  assumes "ends_address r" "radix = 10 \<or> radix = 16"
  shows "takeWhile (is_digit_of radix) (s @ r) = takeWhile (is_digit_of radix) s"
    and "dropWhile (is_digit_of radix) (s @ r) = dropWhile (is_digit_of radix) s @ r"
proof -
  have "r \<noteq> []" "\<not> is_digit_of radix (hd r)" using assms ends_address_digit by (auto simp: ends_address_def)
  then show "takeWhile (is_digit_of radix) (s @ r) = takeWhile (is_digit_of radix) s"
    "dropWhile (is_digit_of radix) (s @ r) = dropWhile (is_digit_of radix) s @ r"
    by (induction s) (auto simp: neq_Nil_conv)
qed

lemma extensible_number: "radix = 10 \<or> radix = 16 \<Longrightarrow> extensible (read_number radix m z b)"
  by (auto simp: extensible_def read_number_def Let_def digits_extended split: option.splits)

lemma extensible_char: "c \<in> address_chars \<Longrightarrow> extensible (read_given_char c)"
proof -
  assume c: "c \<in> address_chars"
  have "read_given_char c (s @ r) = map_option (\<lambda>(x, t). (x, t @ r)) (read_given_char c s)" if "ends_address r" for s r
    using that c by (cases s; cases r) (auto simp: read_given_char_def starts_with_def ends_address_def)
  then show ?thesis by (simp add: extensible_def)
qed

lemma extensible_separator:
  "c \<in> address_chars \<Longrightarrow> extensible f \<Longrightarrow> extensible (read_separator c i f)"
  using extensible_char [of c]
  by (auto simp: extensible_def read_separator_def option.map_comp split: option.splits)

lemma separators [simp]: "CHR ''.'' \<in> address_chars" "CHR '':'' \<in> address_chars"
  by (simp_all add: address_chars_def)

lemma extensible_ipv4: "extensible read_ipv4_addr"
proof -
  have "extensible (read_separator CHR ''.'' i read_octet)" for i
    unfolding read_octet_def by (intro extensible_separator extensible_number) simp_all
  then show ?thesis
    unfolding extensible_def
    by (simp add: read_ipv4_addr_def extensibleD [unfolded extensible_def] split: option.splits)
qed

lemma read_groups_extended:
  assumes "ends_address r"
  shows "read_groups k i (s @ r) = (case read_groups k i s of (gs, d, t) \<Rightarrow> (gs, d, t @ r))"
proof (induction k i s rule: read_groups.induct)
  case (2 k i s)
  have v4: "extensible (read_separator CHR '':'' i read_ipv4_addr)"
    and group: "extensible (read_separator CHR '':'' i read_group)"
    unfolding read_group_def by (auto intro!: extensible_separator extensible_ipv4 extensible_number)
  show ?case
    using 2 extensibleD [OF v4 assms, of s] extensibleD [OF group assms, of s]
    by (auto split: option.splits prod.splits)
qed simp

lemma extensible_ipv6: "extensible read_ipv6_addr"
proof -
  have "read_ipv6_addr (s @ r) = map_option (\<lambda>(x, t). (x, t @ r)) (read_ipv6_addr s)" if "ends_address r" for s r
    unfolding read_ipv6_addr_def
    by (auto simp: read_groups_extended [OF that] extensibleD [OF extensible_char [OF separators(2)] that]
        option.map_comp comp_def Let_def split: prod.splits option.splits)
  then show ?thesis by (simp add: extensible_def)
qed

lemma consumes_number: "radix = 10 \<or> radix = 16 \<Longrightarrow> consumes (read_number radix m z b)"
proof -
  assume "radix = 10 \<or> radix = 16"
  then have "is_digit_of radix c \<Longrightarrow> c \<in> address_chars" for c
    by (auto simp: address_chars_def decimal_digit_ascii hex_digit_ascii is_ascii_hexdigit_def)
  then have "\<exists>p. s = p @ dropWhile (is_digit_of radix) s \<and> set p \<subseteq> address_chars" for s
    by (intro exI [of _ "takeWhile (is_digit_of radix) s"]) (auto dest: set_takeWhileD)
  then show ?thesis by (auto simp: consumes_def read_number_def Let_def split: if_splits)
qed

lemma consumes_separator:
  assumes "consumes f" "c \<in> address_chars"
  shows "consumes (read_separator c i f)"
  unfolding consumes_def
proof safe
  fix s x t assume r: "read_separator c i f s = Some (x, t)"
  show "\<exists>p. s = p @ t \<and> set p \<subseteq> address_chars"
  proof (cases "i > 0")
    case True
    with r obtain s' where s: "s = c # s'" "f s' = Some (x, t)"
      by (auto simp: read_separator_def split: option.splits dest: read_given_char_SomeD)
    then obtain p where "s' = p @ t" "set p \<subseteq> address_chars" using assms(1) unfolding consumes_def by blast
    with s assms(2) show ?thesis by (intro exI [of _ "c # p"]) simp
  qed (use r assms(1) in \<open>auto simp: read_separator_def consumes_def\<close>)
qed

lemma ipv4_string_address: "set (ipv4_string a) \<subseteq> address_chars"
  using ipv4_string_chars [of a] by (auto simp: address_chars_def is_ascii_hexdigit_def)

lemma consumes_ipv4: "consumes read_ipv4_addr"
  unfolding consumes_def using read_ipv4_addr_SomeD ipv4_string_address by blast

lemma read_groups_consumes:
  "read_groups k i s = (gs, d, t) \<Longrightarrow> \<exists>p. s = p @ t \<and> set p \<subseteq> address_chars"
proof (induction k i s arbitrary: gs d t rule: read_groups.induct)
  case (2 k i s)
  let ?v4 = "read_separator CHR '':'' i read_ipv4_addr" and ?g = "read_separator CHR '':'' i read_group"
  have v4: "consumes ?v4" and group: "consumes ?g"
    unfolding read_group_def by (auto intro!: consumes_separator consumes_ipv4 consumes_number)
  show ?case
  proof (cases "if k > 0 then ?v4 s else None")
    case (Some r)
    with 2 v4 show ?thesis by (cases r) (auto simp: consumes_def split: if_splits)
  next
    case None
    show ?thesis
    proof (cases "?g s")
      case gr: (Some r)
      obtain g s' where r: "r = (g, s')" by (cases r)
      obtain gs' where rec: "read_groups k (i + 1) s' = (gs', d, t)"
        using 2(2) None gr r by (auto split: prod.splits)
      from "2.IH" [OF None gr r [symmetric] rec] obtain q where "s' = q @ t" "set q \<subseteq> address_chars" by blast
      moreover obtain p where "s = p @ s'" "set p \<subseteq> address_chars"
        using group gr r unfolding consumes_def by blast
      ultimately show ?thesis by (intro exI [of _ "p @ q"]) simp
    qed (use 2(2) None in auto)
  qed
qed simp

lemma consumes_ipv6: "consumes read_ipv6_addr"
  unfolding consumes_def
proof safe
  fix s x t assume r: "read_ipv6_addr s = Some (x, t)"
  obtain hds dotted s1 where g: "read_groups 8 0 s = (hds, dotted, s1)" by (cases "read_groups 8 0 s")
  from read_groups_consumes [OF g] obtain p where p: "s = p @ s1" "set p \<subseteq> address_chars" by blast
  show "\<exists>p. s = p @ t \<and> set p \<subseteq> address_chars"
  proof (cases "length hds = 8")
    case True
    with r g p show ?thesis by (auto simp: read_ipv6_addr_def)
  next
    case False
    then obtain s3 tl d where s1: "s1 = ''::'' @ s3" and g3: "read_groups (8 - (length hds + 1)) 0 s3 = (tl, d, t)"
      using r g
      by (auto simp: read_ipv6_addr_def Let_def split: prod.splits option.splits if_splits
          dest!: read_given_char_SomeD)
    from read_groups_consumes [OF g3] obtain q where "s3 = q @ t" "set q \<subseteq> address_chars" by blast
    with p s1 show ?thesis by (intro exI [of _ "p @ ''::'' @ q"]) simp
  qed
qed

end
