(* ===== verification/Endpoint.thy ===== *)
theory Endpoint
  imports Net_Addr
begin

text \<open>
  \<open>src/endpoint.rs\<close>: the \<open>host:port\<close> values of the configuration. The record
  \<open>endpoint\<close> is the struct, \<open>from_str\<close> the parser of the command line, \<open>endpoint_string\<close>
  the \<open>Display\<close> form, \<open>endpoint_validate\<close> and \<open>validate_host\<close> the host grammar,
  \<open>same_target\<close> and \<open>could_target_listener\<close> the two guardrails that compare endpoints
  without resolving names.

  The lemmas show what a parsed endpoint is (a non-zero port and a host of the grammar), that
  printing and parsing are inverse on every valid endpoint up to the spelling of an IP address,
  and that \<open>same_target\<close> decides the equality of an abstract target.
\<close>

record endpoint =
  host :: rstr
  port :: u16

datatype endpoint_parse_error = EndpointParseError rstr

definition endpoint_new :: "rstr \<Rightarrow> u16 \<Rightarrow> endpoint" where
  "endpoint_new h p = \<lparr>host = h, port = p\<rparr>"

definition has_forbidden_endpoint_syntax :: "rstr \<Rightarrow> bool" where
  "has_forbidden_endpoint_syntax value \<longleftrightarrow>
     contains_str ''://'' value \<or> CHR ''@'' \<in> set value \<or> CHR ''/'' \<in> set value
     \<or> CHR ''?'' \<in> set value \<or> CHR ''#'' \<in> set value"

definition invalid_label :: "rstr \<Rightarrow> bool" where
  "invalid_label label \<longleftrightarrow>
     label = [] \<or> length label > 63 \<or> starts_with CHR ''-'' label \<or> ends_with CHR ''-'' label
     \<or> \<not> list_all (\<lambda>b. is_ascii_alphanumeric b \<or> b = CHR ''-'') label"

definition validate_host :: "rstr \<Rightarrow> endpoint_parse_error + unit" where
  "validate_host h =
     (if h = [] \<or> list_ex is_whitespace (chars h)
      then Inl (EndpointParseError ''endpoint host is invalid'')
      else if has_forbidden_endpoint_syntax h
      then Inl (EndpointParseError ''endpoint must use host:port without scheme, credentials, or path'')
      else if parse_ip_addr h \<noteq> None then Inr ()
      else if \<not> is_ascii h
      then Inl (EndpointParseError ''endpoint DNS host must use ASCII or punycode'')
      else if CHR '':'' \<in> set h
      then Inl (EndpointParseError ''IPv6 endpoints must use bracketed host:port syntax'')
      else
        (let dns_name = (case strip_suffix CHR ''.'' h of Some s \<Rightarrow> s | None \<Rightarrow> h)
         in if dns_name = [] \<or> length dns_name > 253
            then Inl (EndpointParseError ''endpoint DNS host is invalid'')
            else if list_ex invalid_label (split_on CHR ''.'' dns_name)
            then Inl (EndpointParseError ''endpoint DNS host is invalid'')
            else Inr ()))"

definition endpoint_validate :: "endpoint \<Rightarrow> endpoint_parse_error + unit" where
  "endpoint_validate e =
     (if port e = 0 then Inl (EndpointParseError ''endpoint port must be non-zero'')
      else validate_host (host e))"

definition normalized_host :: "endpoint \<Rightarrow> rstr" where
  "normalized_host e = trim_end_matches CHR ''.'' (host e)"

definition same_target :: "endpoint \<Rightarrow> endpoint \<Rightarrow> bool" where
  "same_target self other =
     (if port self \<noteq> port other then False
      else
        (let left = normalized_host self; right = normalized_host other
         in case (parse_ip_addr left, parse_ip_addr right) of
              (Some left_ip, Some right_ip) \<Rightarrow>
                left_ip = right_ip \<or> (is_loopback left_ip \<and> is_loopback right_ip)
            | (Some ip, None) \<Rightarrow> eq_ignore_ascii_case right ''localhost'' \<and> is_loopback ip
            | (None, Some ip) \<Rightarrow> eq_ignore_ascii_case left ''localhost'' \<and> is_loopback ip
            | (None, None) \<Rightarrow> eq_ignore_ascii_case left right))"

definition could_target_listener :: "endpoint \<Rightarrow> socket_addr \<Rightarrow> bool" where
  "could_target_listener self listener =
     (if port self \<noteq> socket_port listener then False
      else
        (let h = normalized_host self
         in if eq_ignore_ascii_case h ''localhost''
            then is_loopback (socket_ip listener) \<or> is_unspecified (socket_ip listener)
            else
              (case parse_ip_addr h of
                 None \<Rightarrow> False
               | Some endpoint_ip \<Rightarrow>
                   endpoint_ip = socket_ip listener
                   \<or> (is_loopback endpoint_ip \<and> is_loopback (socket_ip listener))
                   \<or> (is_unspecified (socket_ip listener)
                      \<and> (is_loopback endpoint_ip \<or> is_unspecified endpoint_ip))
                   \<or> (is_unspecified endpoint_ip \<and> is_loopback (socket_ip listener)))))"

definition endpoint_string :: "endpoint \<Rightarrow> rstr" where
  "endpoint_string e =
     (if CHR '':'' \<in> set (host e)
      then ''['' @ host e @ '']:'' @ u16_string (port e)
      else host e @ '':'' @ u16_string (port e))"

definition from_str :: "rstr \<Rightarrow> endpoint_parse_error + endpoint" where
  "from_str value =
     (if trim value \<noteq> value \<or> value = []
      then Inl (EndpointParseError ''endpoint must not be empty or padded'')
      else if has_forbidden_endpoint_syntax value
      then Inl (EndpointParseError ''endpoint must use host:port without scheme, credentials, or path'')
      else if length (filter (\<lambda>b. b = CHR '':'') value) > 1 \<and> \<not> starts_with CHR ''['' value
      then Inl (EndpointParseError ''IPv6 endpoints must use bracketed host:port syntax'')
      else
        (case parse_socket_addr value of
           Some socket \<Rightarrow>
             (let e = endpoint_new (ip_string (socket_ip socket)) (socket_port socket)
              in try_bind (endpoint_validate e) (\<lambda>_. Inr e))
         | None \<Rightarrow>
             try_bind (ok_or (EndpointParseError ''endpoint must use host:port syntax'')
                         (rsplit_once CHR '':'' value))
               (\<lambda>(h, p).
                 try_bind (ok_or (EndpointParseError ''endpoint port is invalid'') (parse_u16 p))
                   (\<lambda>p'. let e = endpoint_new h p'
                         in try_bind (endpoint_validate e) (\<lambda>_. Inr e)))))"

subsection \<open>The grammar of a DNS host\<close>

definition dns_label :: "rstr \<Rightarrow> bool" where
  "dns_label l \<longleftrightarrow> 1 \<le> length l \<and> length l \<le> 63 \<and> hd l \<noteq> CHR ''-'' \<and> last l \<noteq> CHR ''-''
     \<and> (\<forall>c \<in> set l. is_ascii_alphanumeric c \<or> c = CHR ''-'')"

fun join_dots :: "rstr list \<Rightarrow> rstr" where
  "join_dots [] = []"
| "join_dots [l] = l"
| "join_dots (l # ls) = l @ CHR ''.'' # join_dots ls"

definition dns_host :: "rstr \<Rightarrow> bool" where
  "dns_host h \<longleftrightarrow> (\<exists>labels root. labels \<noteq> [] \<and> list_all dns_label labels
     \<and> length (join_dots labels) \<le> 253
     \<and> h = join_dots labels @ (if root then ''.'' else []))"

lemma join_split: "join_dots (split_on CHR ''.'' s) = s"
proof (induction s)
  case Nil
  then show ?case by simp
next
  case (Cons x s)
  then show ?case
    by (cases "split_on CHR ''.'' s"; cases "tl (split_on CHR ''.'' s)") auto
qed

lemma split_join:
  "labels \<noteq> [] \<Longrightarrow> \<forall>l \<in> set labels. CHR ''.'' \<notin> set l \<Longrightarrow> split_on CHR ''.'' (join_dots labels) = labels"
  by (induction labels rule: join_dots.induct) (auto simp: split_on_no_sep split_on_append)

lemma invalid_label_iff: "\<not> invalid_label l \<longleftrightarrow> dns_label l"
  by (cases l)
    (auto simp: invalid_label_def dns_label_def starts_with_def ends_with_def list_all_iff)

lemma alphanumeric_ascii: "is_ascii_alphanumeric c \<Longrightarrow> is_ascii_char c"
  by (auto simp: is_ascii_alphanumeric_def is_ascii_digit_def is_ascii_uppercase_def
      is_ascii_lowercase_def is_ascii_char_def)

lemma dns_label_no_dot: "dns_label l \<Longrightarrow> CHR ''.'' \<notin> set l"
  by (auto simp: dns_label_def is_ascii_alphanumeric_def is_ascii_digit_def
      is_ascii_uppercase_def is_ascii_lowercase_def)

definition plain_char :: "char \<Rightarrow> bool" where
  "plain_char c \<longleftrightarrow> is_ascii_alphanumeric c \<or> c \<in> set ''.-:[]''"

lemma plain_char_ascii: "plain_char c \<Longrightarrow> is_ascii_char c"
  using alphanumeric_ascii [of c] by (auto simp: plain_char_def is_ascii_char_def)

lemma plain_not_forbidden: "list_all plain_char s \<Longrightarrow> \<not> has_forbidden_endpoint_syntax s"
proof -
  assume plain: "list_all plain_char s"
  have "contains_str ''://'' s \<Longrightarrow> CHR ''/'' \<in> set s"
    using contains_str_set by fastforce
  moreover have "c \<notin> set s" if "c \<in> set ''@/?#''" for c
    using plain that
    by (auto simp: list_all_iff plain_char_def is_ascii_alphanumeric_def is_ascii_digit_def
        is_ascii_uppercase_def is_ascii_lowercase_def)
  ultimately show ?thesis
    by (auto simp: has_forbidden_endpoint_syntax_def)
qed

lemma plain_no_whitespace: "list_all plain_char s \<Longrightarrow> list_all (\<lambda>ch. \<not> is_whitespace ch) (chars s)"
proof -
  assume plain: "list_all plain_char s"
  then have "is_ascii s"
    by (auto simp: is_ascii_def list_all_iff plain_char_ascii)
  moreover have "\<not> is_whitespace [c]" if "plain_char c" for c
    using that
    by (auto simp: is_whitespace_def white_space_def plain_char_def is_ascii_alphanumeric_def
        is_ascii_digit_def is_ascii_uppercase_def is_ascii_lowercase_def)
  ultimately show ?thesis
    using plain by (simp add: chars_ascii list_all_iff)
qed

lemma plain_trim: "list_all plain_char s \<Longrightarrow> trim s = s"
  by (intro trim_id plain_no_whitespace)

lemma set_join_dots: "set (join_dots labels) \<subseteq> insert CHR ''.'' (\<Union>l \<in> set labels. set l)"
  by (induction labels rule: join_dots.induct) auto

lemma dns_host_chars: "dns_host h \<Longrightarrow> \<forall>c \<in> set h. is_ascii_alphanumeric c \<or> c = CHR ''-'' \<or> c = CHR ''.''"
  using set_join_dots
  by (fastforce simp: dns_host_def dns_label_def list_all_iff split: if_splits)

lemma dns_host_plain: "dns_host h \<Longrightarrow> list_all plain_char h"
  using dns_host_chars by (fastforce simp: list_all_iff plain_char_def)

lemma dns_host_no_colon: "dns_host h \<Longrightarrow> CHR '':'' \<notin> set h"
  using dns_host_chars [of h]
  by (auto simp: is_ascii_alphanumeric_def is_ascii_digit_def is_ascii_uppercase_def
      is_ascii_lowercase_def)

lemma join_dots_ne: "labels \<noteq> [] \<Longrightarrow> list_all dns_label labels \<Longrightarrow>
    join_dots labels \<noteq> [] \<and> last (join_dots labels) \<noteq> CHR ''.''"
proof (induction labels rule: join_dots.induct)
  case (2 l)
  then show ?case
    using dns_label_no_dot [of l] by (metis dns_label_def join_dots.simps(2) last_in_set
        list.pred_inject(2) list.size(3) not_one_le_zero)
qed auto

lemma dns_host_ne: "dns_host h \<Longrightarrow> h \<noteq> []"
  using join_dots_ne by (auto simp: dns_host_def)

lemma dns_name_of_host:
  assumes "dns_host h"
  obtains labels where "labels \<noteq> []" "list_all dns_label labels" "length (join_dots labels) \<le> 253"
    "(case strip_suffix CHR ''.'' h of Some s \<Rightarrow> s | None \<Rightarrow> h) = join_dots labels"
  using assms join_dots_ne
  by (fastforce simp: dns_host_def strip_suffix_def split: if_splits)

lemma validate_host_dns: "dns_host h \<Longrightarrow> validate_host h = Inr ()"
proof -
  assume dns: "dns_host h"
  obtain labels where l: "labels \<noteq> []" "list_all dns_label labels" "length (join_dots labels) \<le> 253"
    and name: "(case strip_suffix CHR ''.'' h of Some s \<Rightarrow> s | None \<Rightarrow> h) = join_dots labels"
    by (rule dns_name_of_host [OF dns])
  have "split_on CHR ''.'' (join_dots labels) = labels"
    using l by (intro split_join) (auto simp: list_all_iff dns_label_no_dot)
  then have ok: "\<not> list_ex invalid_label (split_on CHR ''.'' (join_dots labels))"
    using l(2) by (simp add: list_ex_iff list_all_iff invalid_label_iff)
  have plain: "list_all plain_char h" by (rule dns_host_plain [OF dns])
  then have "\<not> list_ex is_whitespace (chars h)" "is_ascii h"
    using plain_no_whitespace [OF plain]
    by (auto simp: list_all_iff list_ex_iff is_ascii_def plain_char_ascii)
  then show ?thesis
    using dns_host_ne [OF dns] plain_not_forbidden [OF plain] dns_host_no_colon [OF dns]
      join_dots_ne [OF l(1,2)] l(3) ok
    by (simp add: validate_host_def Let_def name)
qed

lemma validate_host_grammar:
  assumes "validate_host h = Inr ()"
  shows "parse_ip_addr h \<noteq> None \<or> dns_host h"
proof (rule disjCI)
  assume "\<not> dns_host h"
  show "parse_ip_addr h \<noteq> None"
  proof
    assume none: "parse_ip_addr h = None"
    let ?name = "case strip_suffix CHR ''.'' h of Some s \<Rightarrow> s | None \<Rightarrow> h"
    have ok: "length ?name \<le> 253" "\<not> list_ex invalid_label (split_on CHR ''.'' ?name)"
      using assms none by (auto simp: validate_host_def Let_def split: if_splits)
    have h: "h = ?name @ (if strip_suffix CHR ''.'' h = None then [] else ''.'')"
      by (auto simp: strip_suffix_def) (metis append_butlast_last_id)
    have "dns_host h"
      unfolding dns_host_def
      using ok h
      by (intro exI [of _ "split_on CHR ''.'' ?name"] exI [of _ "strip_suffix CHR ''.'' h \<noteq> None"])
        (auto simp: join_split list_ex_iff list_all_iff invalid_label_iff)
    with \<open>\<not> dns_host h\<close> show False by simp
  qed
qed

subsection \<open>Printing and parsing\<close>

text \<open>An endpoint the parser can return: valid, and an IP host is in its text form.\<close>

definition canonical :: "endpoint \<Rightarrow> bool" where
  "canonical e \<longleftrightarrow> endpoint_validate e = Inr ()
     \<and> (\<forall>ip. parse_ip_addr (host e) = Some ip \<longrightarrow> host e = ip_string ip)"

lemma validate_Inr: "endpoint_validate e = Inr () \<longleftrightarrow> port e \<noteq> 0 \<and> validate_host (host e) = Inr ()"
  by (simp add: endpoint_validate_def)

lemma digit_plain: "is_ascii_digit c \<Longrightarrow> plain_char c"
  by (simp add: plain_char_def is_ascii_alphanumeric_def)

lemma hexdigit_plain: "is_ascii_hexdigit c \<Longrightarrow> plain_char c"
  by (auto simp: plain_char_def is_ascii_alphanumeric_def is_ascii_hexdigit_def
      is_ascii_digit_def is_ascii_uppercase_def is_ascii_lowercase_def)

lemma u16_string_plain: "list_all plain_char (u16_string p)"
  using u16_string_digits [of p] by (auto simp: list_all_iff digit_plain)

lemma u16_string_no_colon [simp]: "CHR '':'' \<notin> set (u16_string p)"
  using u16_string_digits [of p] by (auto simp: list_all_iff is_ascii_digit_def)

lemma fmt_subslice_chars: "\<forall>c \<in> set (fmt_subslice gs). is_ascii_hexdigit c \<or> c = CHR '':''"
  using hex_string_chars by (cases gs) (auto simp: list_all_iff hex_digit_ascii)

lemma ip_string_plain: "list_all plain_char (ip_string a)"
proof -
  have v4: "plain_char c" if "c \<in> set (ipv4_string x)" for c x
    using that ipv4_string_chars [of x] digit_plain by (auto simp: plain_char_def)
  have fmt: "plain_char c" if "c \<in> set (fmt_subslice gs)" for c gs
    using that fmt_subslice_chars [of gs] hexdigit_plain by (auto simp: plain_char_def)
  have lit: "list_all plain_char ''::ffff:''"
    by code_simp
  show ?thesis
    using v4 fmt lit
    by (cases a) (auto simp: ipv6_string_def list_all_iff Let_def plain_char_def
        split: option.splits prod.splits)
qed

lemma ipv4_string_no_colon: "CHR '':'' \<notin> set (ipv4_string a)"
  using ipv4_string_chars [of a] by (auto simp: is_ascii_digit_def)

lemma ipv6_string_colon: "CHR '':'' \<in> set (ipv6_string a)"
proof -
  have "read_ipv6_addr (ipv6_string a @ []) = Some (a, [])"
    by (intro read_ipv6_string) (simp_all add: after_groups_def after_group_def starts_with_def)
  then show ?thesis using read_ipv6_addr_colon by fastforce
qed

lemma ip_string_ne: "ip_string a \<noteq> []"
proof (cases a)
  case (V4 x)
  then show ?thesis by (cases x) (simp add: u8_string_def)
next
  case (V6 x)
  then show ?thesis using ipv6_string_colon [of x] by auto
qed

lemma validate_ip_string: "validate_host (ip_string a) = Inr ()"
  using plain_no_whitespace [OF ip_string_plain [of a]] plain_not_forbidden [OF ip_string_plain [of a]]
  by (auto simp: validate_host_def ip_string_ne parse_ip_string list_ex_iff list_all_iff)

lemma not_ip_start:
  assumes "\<not> is_ascii_hexdigit c" "c \<noteq> CHR ''.''" "c \<noteq> CHR '':''"
  shows "parse_ip_addr (c # s) = None"
proof -
  have stop: "after_groups (c # s)"
    using assms by (simp add: after_groups_def after_group_def starts_with_def hex_digit_ascii)
  then have "read_ipv4_addr (c # s) = None"
    by (intro read_ipv4_after_None) (simp add: after_groups_def)
  moreover have "read_ipv6_addr (c # s) = None"
    using assms by (simp add: read_ipv6_addr_def read_groups_stop [OF stop])
  ultimately show ?thesis
    by (simp add: parse_ip_addr_def parse_with_def read_ip_addr_def)
qed

lemma bracket_not_ip: "parse_ip_addr (CHR ''['' # s) = None"
  by (intro not_ip_start) (simp_all add: is_ascii_hexdigit_def is_ascii_digit_def)

lemma parse_ip_V4_D: "parse_ip_addr s = Some (V4 a) \<Longrightarrow> s = ipv4_string a"
  by (auto simp: parse_ip_addr_def parse_with_def read_ip_addr_def
      split: option.splits prod.splits list.splits dest: read_ipv4_addr_SomeD)

lemma parse_ip_V6_D: "parse_ip_addr s = Some (V6 a) \<Longrightarrow> CHR '':'' \<in> set s"
  by (auto simp: parse_ip_addr_def parse_with_def read_ip_addr_def
      split: option.splits prod.splits list.splits dest: read_ipv6_addr_colon)

lemma from_str_canonical:
  assumes "from_str v = Inr e"
  shows "canonical e"
proof (cases "parse_socket_addr v")
  case (Some socket)
  then have e: "e = endpoint_new (ip_string (socket_ip socket)) (socket_port socket)"
    and "endpoint_validate e = Inr ()"
    using assms by (auto simp: from_str_def try_bind_eq_Inr Let_def split: if_splits)
  then show ?thesis
    by (auto simp: canonical_def endpoint_new_def parse_ip_string)
next
  case None
  have colons: "length (filter (\<lambda>b. b = CHR '':'') v) > 1 \<longrightarrow> starts_with CHR ''['' v"
    using assms by (simp add: from_str_def split: if_splits)
  obtain h p p' where v: "v = h @ CHR '':'' # p" and e: "e = endpoint_new h p'"
    and valid: "endpoint_validate e = Inr ()"
    using assms None
    by (auto simp: from_str_def try_bind_eq_Inr rsplit_once_eq_Some Let_def split: if_splits)
  have "h = ip_string ip" if ip: "parse_ip_addr h = Some ip" for ip
  proof (cases ip)
    case (V4 a)
    with ip show ?thesis by (simp add: parse_ip_V4_D)
  next
    case (V6 a)
    then have "CHR '':'' \<in> set h" using ip parse_ip_V6_D by simp
    then have "0 < length (filter (\<lambda>b. b = CHR '':'') h)"
      by (auto simp: filter_empty_conv)
    then have "starts_with CHR ''['' v" using colons v by simp
    then obtain s where "h = CHR ''['' # s"
      using \<open>CHR '':'' \<in> set h\<close> v by (cases h) (auto simp: starts_with_def)
    then show ?thesis using ip bracket_not_ip by simp
  qed
  with valid e show ?thesis
    by (simp add: canonical_def endpoint_new_def)
qed

lemma dns_not_socket:
  assumes dns: "dns_host h" and ip: "parse_ip_addr h = None"
  shows "parse_socket_addr (h @ '':'' @ u16_string p) = None"
proof -
  let ?v = "h @ '':'' @ u16_string p"
  have "hd h \<noteq> CHR ''[''"
    using bspec [OF dns_host_chars [OF dns] hd_in_set [OF dns_host_ne [OF dns]]]
    by (auto simp: is_ascii_alphanumeric_def is_ascii_digit_def is_ascii_uppercase_def
        is_ascii_lowercase_def)
  then have v6: "read_socket_addr_v6 ?v = None"
    using dns_host_ne [OF dns]
    by (cases h) (auto simp: read_socket_addr_v6_def)
  have v4: "read_socket_addr_v4 ?v = None"
  proof (rule ccontr)
    assume "read_socket_addr_v4 ?v \<noteq> None"
    then obtain a s1 s2 where a: "read_ipv4_addr ?v = Some (a, s1)" and s1: "s1 = CHR '':'' # s2"
      by (auto simp: read_socket_addr_v4_def read_port_def
          split: option.splits prod.splits dest: read_given_char_SomeD)
    have eq: "h @ CHR '':'' # u16_string p = ipv4_string a @ CHR '':'' # s2"
      using read_ipv4_addr_SomeD [OF a] s1 by simp
    have "takeWhile (\<lambda>c. c \<noteq> CHR '':'') (h @ CHR '':'' # u16_string p) = h"
      using dns_host_no_colon [OF dns] by (auto simp: takeWhile_append)
    moreover have "takeWhile (\<lambda>c. c \<noteq> CHR '':'') (ipv4_string a @ CHR '':'' # s2) = ipv4_string a"
      using ipv4_string_no_colon [of a] by (auto simp: takeWhile_append)
    ultimately have "h = ip_string (V4 a)" using eq by simp
    then show False using ip parse_ip_string [of "V4 a"] by simp
  qed
  show ?thesis
    using v4 v6 by (simp add: parse_socket_addr_def parse_with_def read_socket_addr_def)
qed

lemma endpoint_eqI: "host e = h \<Longrightarrow> port e = p \<Longrightarrow> endpoint_new h p = e"
  by (cases e) (simp add: endpoint_new_def)

lemma no_colon_filter: "CHR '':'' \<notin> set s \<Longrightarrow> filter (\<lambda>b. b = CHR '':'') s = []"
  by (auto simp: filter_empty_conv)

lemma from_str_plain:
  assumes "list_all plain_char v" "v \<noteq> []" "length (filter (\<lambda>b. b = CHR '':'') v) \<le> 1 \<or> starts_with CHR ''['' v"
  shows "from_str v = (case parse_socket_addr v of
       Some socket \<Rightarrow> (let e = endpoint_new (ip_string (socket_ip socket)) (socket_port socket)
                      in try_bind (endpoint_validate e) (\<lambda>_. Inr e))
     | None \<Rightarrow> try_bind (ok_or (EndpointParseError ''endpoint must use host:port syntax'')
            (rsplit_once CHR '':'' v))
          (\<lambda>(h, p). try_bind (ok_or (EndpointParseError ''endpoint port is invalid'') (parse_u16 p))
             (\<lambda>p'. let e = endpoint_new h p' in try_bind (endpoint_validate e) (\<lambda>_. Inr e))))"
  using assms plain_trim [of v] plain_not_forbidden [of v] by (auto simp: from_str_def)

lemma from_str_endpoint_string:
  assumes "canonical e"
  shows "from_str (endpoint_string e) = Inr e"
proof -
  have port: "port e \<noteq> 0" and valid: "validate_host (host e) = Inr ()"
    and val: "endpoint_validate e = Inr ()"
    using assms by (auto simp: canonical_def validate_Inr)
  note plain = u16_string_plain [of "port e"] ip_string_plain
  show ?thesis
  proof (cases "parse_ip_addr (host e)")
    case (Some ip)
    then have h: "host e = ip_string ip" using assms by (simp add: canonical_def)
    show ?thesis
    proof (cases ip)
      case (V4 a)
      have "endpoint_string e = ipv4_string a @ '':'' @ u16_string (port e)"
        using V4 h ipv4_string_no_colon by (simp add: endpoint_string_def)
      moreover have "from_str (ipv4_string a @ '':'' @ u16_string (port e)) = Inr e"
        using plain(1) plain(2) [of ip] V4 h val endpoint_eqI [of e]
        by (subst from_str_plain)
          (simp_all add: no_colon_filter ipv4_string_no_colon parse_socket_v4_string [simplified]
            plain_char_def)
      ultimately show ?thesis by simp
    next
      case (V6 a)
      have "endpoint_string e = ''['' @ ipv6_string a @ '']:'' @ u16_string (port e)"
        using V6 h ipv6_string_colon by (simp add: endpoint_string_def)
      moreover have "from_str (''['' @ ipv6_string a @ '']:'' @ u16_string (port e)) = Inr e"
        using plain(1) plain(2) [of ip] V6 h val endpoint_eqI [of e]
        by (subst from_str_plain)
          (simp_all add: parse_socket_v6_string [simplified] plain_char_def starts_with_def)
      ultimately show ?thesis by simp
    qed
  next
    case None
    then have dns: "dns_host (host e)" using validate_host_grammar [OF valid] by simp
    have "endpoint_string e = host e @ '':'' @ u16_string (port e)"
      using dns_host_no_colon [OF dns] by (simp add: endpoint_string_def)
    moreover have "rsplit_once CHR '':'' (host e @ '':'' @ u16_string (port e))
        = Some (host e, u16_string (port e))"
      by (simp add: rsplit_once_eq_Some)
    moreover have "from_str (host e @ '':'' @ u16_string (port e)) = Inr e"
      using plain(1) dns_host_plain [OF dns] dns_not_socket [OF dns None] val endpoint_eqI [of e]
        calculation(2)
      by (subst from_str_plain)
        (simp_all add: no_colon_filter dns_host_no_colon [OF dns] plain_char_def)
    ultimately show ?thesis by simp
  qed
qed

text \<open>The endpoint with an IP host in its text form, as the parser builds it.\<close>

definition respelled :: "endpoint \<Rightarrow> endpoint" where
  "respelled e = e\<lparr>host := (case parse_ip_addr (host e) of Some ip \<Rightarrow> ip_string ip | None \<Rightarrow> host e)\<rparr>"

lemma parse_ip_V6_read: "parse_ip_addr s = Some (V6 a) \<Longrightarrow> read_ipv6_addr s = Some (a, [])"
  by (auto simp: parse_ip_addr_def parse_with_def read_ip_addr_def split: option.splits prod.splits list.splits)

lemma address_plain: "c \<in> address_chars \<Longrightarrow> plain_char c"
  using hexdigit_plain [of c] by (auto simp: address_chars_def plain_char_def)

lemma parse_bracketed:
  assumes "parse_ip_addr h = Some (V6 a)"
  shows "parse_socket_addr (''['' @ h @ '']:'' @ u16_string p) = Some (SocketV6 a p 0)"
    and "list_all plain_char h"
proof -
  let ?rest = "'']:'' @ u16_string p"
  note read = parse_ip_V6_read [OF assms]
  have "ends_address ?rest" by (simp add: ends_address_def address_chars_def is_ascii_hexdigit_def is_ascii_digit_def)
  from extensibleD [OF extensible_ipv6 this, of h] read
  have v6: "read_ipv6_addr (h @ ?rest) = Some (a, ?rest)" by simp
  have "read_ipv4_addr (''['' @ h @ ?rest) = None"
    by (intro read_ipv4_after_None) (simp add: after_group_def starts_with_def hex_digit_ascii is_ascii_hexdigit_def is_ascii_digit_def)
  with v6 show "parse_socket_addr (''['' @ h @ '']:'' @ u16_string p) = Some (SocketV6 a p 0)"
    using read_port_string [of p]
    by (simp add: parse_socket_addr_def parse_with_def read_socket_addr_def read_socket_addr_v4_def
        read_socket_addr_v6_def read_scope_id_def)
  obtain q where "h = q @ []" "set q \<subseteq> address_chars"
    using consumes_ipv6 read unfolding consumes_def by blast
  then show "list_all plain_char h" using address_plain by (auto simp: list_all_iff)
qed

lemma validate_ipv6: "parse_ip_addr h = Some (V6 a) \<Longrightarrow> validate_host h = Inr ()"
  using plain_no_whitespace [of h] plain_not_forbidden [of h] parse_bracketed(2) [of h a] parse_ip_V6_D [of h a]
  by (auto simp: validate_host_def list_ex_iff list_all_iff)

lemma from_str_respelled:
  assumes "endpoint_validate e = Inr ()"
  shows "from_str (endpoint_string e) = Inr (respelled e)"
proof (cases "\<exists>a. parse_ip_addr (host e) = Some (V6 a)")
  case True
  then obtain a where a: "parse_ip_addr (host e) = Some (V6 a)" by blast
  let ?v = "''['' @ host e @ '']:'' @ u16_string (port e)"
  have "endpoint_string e = ?v" using parse_ip_V6_D [OF a] by (simp add: endpoint_string_def)
  moreover have "list_all plain_char ?v"
    using parse_bracketed(2) [OF a] u16_string_plain [of "port e"] by (simp add: plain_char_def)
  moreover have "respelled e = endpoint_new (ip_string (V6 a)) (port e)"
    using a by (simp add: respelled_def endpoint_new_def)
  moreover have "endpoint_validate (endpoint_new (ip_string (V6 a)) (port e)) = Inr ()"
    using assms validate_ip_string [of "V6 a"] by (simp add: endpoint_new_def validate_Inr)
  ultimately show ?thesis
    using parse_bracketed(1) [OF a, of "port e"] from_str_plain [of ?v] by (simp add: starts_with_def)
next
  case False
  then have ip: "host e = ip_string ip" if "parse_ip_addr (host e) = Some ip" for ip
    using that by (cases ip) (auto dest: parse_ip_V4_D)
  then have "respelled e = e" by (cases e) (auto simp: respelled_def split: option.splits)
  moreover have "canonical e" using assms ip by (simp add: canonical_def)
  ultimately show ?thesis using from_str_endpoint_string by simp
qed

subsection \<open>Abstract targets\<close>

text \<open>
  What the guardrails can tell apart without resolving names: every loopback spelling is one
  target, another literal address is itself, another name is itself up to ASCII case.
\<close>

datatype target = LoopbackTarget | IpTarget ip_addr | NameTarget rstr

definition target_of :: "endpoint \<Rightarrow> target" where
  "target_of e =
     (let h = normalized_host e
      in case parse_ip_addr h of
           Some ip \<Rightarrow> if is_loopback ip then LoopbackTarget else IpTarget ip
         | None \<Rightarrow> if eq_ignore_ascii_case h ''localhost'' then LoopbackTarget
                  else NameTarget (to_ascii_lowercase h))"

lemma localhost_not_ip: "eq_ignore_ascii_case h ''localhost'' \<Longrightarrow> parse_ip_addr h = None"
proof -
  assume "eq_ignore_ascii_case h ''localhost''"
  moreover have "to_ascii_lowercase ''localhost'' = ''localhost''" by code_simp
  ultimately have low: "map ascii_lower h = ''localhost''"
    by (simp add: eq_ignore_ascii_case_def to_ascii_lowercase_def)
  then obtain c s where h: "h = c # s" and c: "ascii_lower c = CHR ''l''"
    by (cases h) auto
  have "\<not> is_ascii_hexdigit c"
    using is_ascii_hexdigit_lower [of c] c by (simp add: is_ascii_hexdigit_def is_ascii_digit_def)
  moreover have "c \<noteq> CHR ''.''" "c \<noteq> CHR '':''"
    using c by (auto simp: ascii_lower_def is_ascii_uppercase_def)
  ultimately show ?thesis
    using h by (simp add: not_ip_start)
qed

lemma same_target_target_of:
  "same_target a b \<longleftrightarrow> port a = port b \<and> target_of a = target_of b"
  by (auto simp: same_target_def target_of_def Let_def eq_ignore_ascii_case_def
      split: option.splits)

lemma could_target_listener_target_of:
  "could_target_listener e listener \<longleftrightarrow> port e = socket_port listener \<and>
     (case target_of e of
        LoopbackTarget \<Rightarrow> is_loopback (socket_ip listener) \<or> is_unspecified (socket_ip listener)
      | IpTarget ip \<Rightarrow> ip = socket_ip listener
          \<or> (is_unspecified ip \<and> (is_loopback (socket_ip listener) \<or> is_unspecified (socket_ip listener)))
      | NameTarget n \<Rightarrow> False)"
  by (auto simp: could_target_listener_def target_of_def Let_def localhost_not_ip
      split: option.splits)

subsection \<open>Properties\<close>

text \<open>
  C35: printing and parsing are inverse. An endpoint that the parser returned, from whatever
  spelling, is printed to a text that parses to the same endpoint; and every endpoint that
  passes \<open>validate\<close>, also one built by \<open>new\<close>, is printed to a text that is accepted and parses
  to the same port and the same host, where an IP address is respelled in its text form.
\<close>

theorem from_str_roundtrip:
  "(from_str v = Inr e \<longrightarrow> from_str (endpoint_string e) = Inr e)
   \<and> (endpoint_validate d = Inr () \<longrightarrow> from_str (endpoint_string d) = Inr (respelled d))"
  by (blast intro: from_str_endpoint_string from_str_canonical from_str_respelled)

theorem from_str_roundtrip_witness:
  "from_str ''[0:0::0:1]:050001'' = Inr \<lparr>host = ''::1'', port = 50001\<rparr>
   \<and> from_str (endpoint_string \<lparr>host = ''::1'', port = 50001\<rparr>) = Inr \<lparr>host = ''::1'', port = 50001\<rparr>
   \<and> from_str (endpoint_string \<lparr>host = ''0:0:0:0:0:0:0:1'', port = 1\<rparr>) = Inr \<lparr>host = ''::1'', port = 1\<rparr>"
proof -
  have "from_str ''[0:0::0:1]:050001'' = Inr \<lparr>host = ''::1'', port = 50001\<rparr>"
    "endpoint_validate \<lparr>host = ''0:0:0:0:0:0:0:1'', port = 1\<rparr> = Inr ()"
    "respelled \<lparr>host = ''0:0:0:0:0:0:0:1'', port = 1\<rparr> = \<lparr>host = ''::1'', port = 1\<rparr>"
    by code_simp+
  with from_str_roundtrip [of "''[0:0::0:1]:050001''" "\<lparr>host = ''::1'', port = 50001\<rparr>"
      "\<lparr>host = ''0:0:0:0:0:0:0:1'', port = 1\<rparr>"]
  show ?thesis by simp
qed

text \<open>
  C36: a parsed endpoint has a non-zero port, and its host is a literal IP address in its text
  form or a DNS host: labels of 1 to 63 letters, digits and inner hyphens, at most 253 bytes
  of them with the dots, and at most one final root dot. Conversely every DNS host with a
  non-zero port is accepted when it is written before a colon and the port, and every spelling
  of an IPv6 address when it is written in brackets; its host is then the text form.
\<close>

theorem from_str_grammar:
  "(from_str v = Inr e \<longrightarrow>
      port e \<noteq> 0 \<and> ((\<exists>ip. host e = ip_string ip) \<or> dns_host (host e)))
   \<and> (dns_host h \<and> p \<noteq> 0 \<longrightarrow>
      from_str (h @ '':'' @ u16_string p) = Inr \<lparr>host = h, port = p\<rparr>)
   \<and> (parse_ip_addr s = Some (V6 a) \<and> p \<noteq> 0 \<longrightarrow>
      from_str (''['' @ s @ '']:'' @ u16_string p) = Inr \<lparr>host = ipv6_string a, port = p\<rparr>)"
proof (intro conjI impI)
  assume "from_str v = Inr e"
  then have e: "canonical e" by (rule from_str_canonical)
  then show "port e \<noteq> 0" by (simp add: canonical_def validate_Inr)
  show "(\<exists>ip. host e = ip_string ip) \<or> dns_host (host e)"
    using e validate_host_grammar [of "host e"] by (auto simp: canonical_def validate_Inr)
next
  assume h: "dns_host h \<and> p \<noteq> 0"
  let ?e = "\<lparr>host = h, port = p\<rparr>"
  have "h = ip_string ip" if "parse_ip_addr h = Some ip" for ip
    using that h dns_host_no_colon by (cases ip) (auto dest: parse_ip_V4_D parse_ip_V6_D)
  then have "canonical ?e"
    using h by (simp add: canonical_def validate_Inr validate_host_dns)
  then have "from_str (endpoint_string ?e) = Inr ?e"
    by (rule from_str_endpoint_string)
  then show "from_str (h @ '':'' @ u16_string p) = Inr ?e"
    using h dns_host_no_colon by (simp add: endpoint_string_def)
next
  assume s: "parse_ip_addr s = Some (V6 a) \<and> p \<noteq> 0"
  then have "validate_host s = Inr ()" by (intro validate_ipv6) blast
  then show "from_str (''['' @ s @ '']:'' @ u16_string p) = Inr \<lparr>host = ipv6_string a, port = p\<rparr>"
    using from_str_respelled [of "\<lparr>host = s, port = p\<rparr>"] s parse_ip_V6_D [of s a]
    by (simp add: validate_Inr respelled_def endpoint_string_def)
qed

theorem from_str_grammar_witness:
  "from_str ''relay.example.:50001'' = Inr \<lparr>host = ''relay.example.'', port = 50001\<rparr>
   \<and> dns_host ''relay.example.'' \<and> \<not> (\<exists>ip. ''relay.example.'' = ip_string ip)
   \<and> from_str (''relay.example.'' @ '':'' @ u16_string 50001)
      = Inr \<lparr>host = ''relay.example.'', port = 50001\<rparr>
   \<and> from_str (''['' @ ''0:0::0:1'' @ '']:'' @ u16_string 50001)
      = Inr \<lparr>host = ipv6_string (Ipv6 0 0 0 0 0 0 0 1), port = 50001\<rparr>"
proof -
  have parse: "from_str ''relay.example.:50001'' = Inr \<lparr>host = ''relay.example.'', port = 50001\<rparr>"
    and not_ip: "parse_ip_addr ''relay.example.'' = None"
    by code_simp+
  have "\<nexists>ip. ''relay.example.'' = ip_string ip"
    using not_ip parse_ip_string by (metis option.distinct(1))
  moreover from this have dns: "dns_host ''relay.example.''"
    using from_str_grammar [of "''relay.example.:50001''" "\<lparr>host = ''relay.example.'', port = 50001\<rparr>"]
      parse by simp
  moreover have "from_str (''relay.example.'' @ '':'' @ u16_string 50001)
      = Inr \<lparr>host = ''relay.example.'', port = 50001\<rparr>"
    using from_str_grammar [of _ _ "''relay.example.''" 50001] dns by simp
  moreover have "parse_ip_addr ''0:0::0:1'' = Some (V6 (Ipv6 0 0 0 0 0 0 0 1))" by code_simp
  then have "from_str (''['' @ ''0:0::0:1'' @ '']:'' @ u16_string 50001)
      = Inr \<lparr>host = ipv6_string (Ipv6 0 0 0 0 0 0 0 1), port = 50001\<rparr>"
    using from_str_grammar [of _ _ _ 50001 "''0:0::0:1''" "Ipv6 0 0 0 0 0 0 0 1"] by simp
  ultimately show ?thesis using parse by blast
qed

text \<open>
  C37: \<open>same_target\<close> is the equality of port and abstract target: two endpoints are the same
  when they have the same port and are both loopback (\<open>localhost\<close> in any case, any loopback
  literal, with or without final dots), or the same literal address, or the same name up to
  ASCII case and final dots. So it is an equivalence relation. The host that a target is made of
  is the host of the endpoint without the dots at its end, all of them.
\<close>

theorem same_target_decides_target:
  "(same_target a b \<longleftrightarrow> (port a, target_of a) = (port b, target_of b))
   \<and> (\<exists>n. host a = normalized_host a @ replicate n CHR ''.'') \<and> \<not> ends_with CHR ''.'' (normalized_host a)"
  by (simp add: same_target_target_of normalized_host_def trim_end_matches_split trim_end_matches_ends)

text \<open>
  C38: what \<open>could_target_listener\<close> detects, for every endpoint and every listener: the same
  port, and either a loopback spelling against a loopback or wildcard listener, or the
  listener's own literal address, or the wildcard address against a loopback or wildcard
  listener. Every other name is let through, as the code documents.
\<close>

theorem could_target_listener_decides:
  "could_target_listener e listener \<longleftrightarrow> port e = socket_port listener \<and>
     (case target_of e of
        LoopbackTarget \<Rightarrow> is_loopback (socket_ip listener) \<or> is_unspecified (socket_ip listener)
      | IpTarget ip \<Rightarrow> ip = socket_ip listener
          \<or> (is_unspecified ip \<and> (is_loopback (socket_ip listener) \<or> is_unspecified (socket_ip listener)))
      | NameTarget n \<Rightarrow> False)"
  by (rule could_target_listener_target_of)

end
