(* ===== verification/Config.thy ===== *)
theory Config
  imports Endpoint
begin

text \<open>
  \<open>src/config.rs\<close>: the command line (\<open>cli\<close>, with the declared defaults in
  \<open>cli_defaults\<close>), the validated limits and the conversion \<open>config_try_from\<close> that every
  start of the process runs before it opens a socket. The parsing of the arguments themselves
  is the work of the \<open>clap\<close> package; the model starts from the struct it fills.

  The lemmas characterise the accepted command lines exactly and show what an accepted
  configuration guarantees to the other components: bounded resources, separated endpoints, an
  endpoint for the relay mode that needs one.
\<close>

definition DEFAULT_MAX_FRAME_BYTES :: usize where
  "DEFAULT_MAX_FRAME_BYTES = 2 * 1024 * 1024"

definition MAX_CONFIGURABLE_FRAME_BYTES :: usize where
  "MAX_CONFIGURABLE_FRAME_BYTES = 16 * 1024 * 1024"

definition DEFAULT_MAX_CONNECTIONS :: usize where
  "DEFAULT_MAX_CONNECTIONS = 128"

definition MAX_CONFIGURABLE_CONNECTIONS :: usize where
  "MAX_CONFIGURABLE_CONNECTIONS = 16 * 1024"

definition DEFAULT_MAX_PENDING_REQUESTS :: usize where
  "DEFAULT_MAX_PENDING_REQUESTS = 1024"

definition MAX_CONFIGURABLE_PENDING_REQUESTS :: usize where
  "MAX_CONFIGURABLE_PENDING_REQUESTS = 16 * 1024"

definition DEFAULT_MAX_CONCURRENT_BROADCASTS :: usize where
  "DEFAULT_MAX_CONCURRENT_BROADCASTS = 8"

definition MAX_CONFIGURABLE_CONCURRENT_BROADCASTS :: usize where
  "MAX_CONFIGURABLE_CONCURRENT_BROADCASTS = 1024"

definition MAX_CONFIGURABLE_IN_FLIGHT_BROADCAST_BYTES :: usize where
  "MAX_CONFIGURABLE_IN_FLIGHT_BROADCAST_BYTES = 128 * 1024 * 1024"

lemmas config_consts =
  DEFAULT_MAX_FRAME_BYTES_def MAX_CONFIGURABLE_FRAME_BYTES_def DEFAULT_MAX_CONNECTIONS_def
  MAX_CONFIGURABLE_CONNECTIONS_def DEFAULT_MAX_PENDING_REQUESTS_def
  MAX_CONFIGURABLE_PENDING_REQUESTS_def DEFAULT_MAX_CONCURRENT_BROADCASTS_def
  MAX_CONFIGURABLE_CONCURRENT_BROADCASTS_def MAX_CONFIGURABLE_IN_FLIGHT_BROADCAST_BYTES_def

datatype pending_request_limit = PendingRequestLimit (pending_limit_get: usize)

datatype concurrent_broadcast_limit = ConcurrentBroadcastLimit (broadcast_limit_get: usize)

datatype relay_mode = Reject | SocksElectrum

datatype config_error = ConfigError rstr

record cli =
  cli_check_config :: bool
  cli_listen :: socket_addr
  cli_upstream :: endpoint
  cli_relay_mode :: relay_mode
  cli_relay_endpoint :: "endpoint option"
  cli_socks5_proxy :: socket_addr
  cli_max_connections :: usize
  cli_max_concurrent_broadcasts :: usize
  cli_max_pending_requests :: usize
  cli_max_frame_bytes :: usize
  cli_connect_timeout_seconds :: u64
  cli_relay_timeout_seconds :: u64
  cli_allow_non_loopback_listen :: bool

definition cli_defaults :: cli where
  "cli_defaults =
     \<lparr>cli_check_config = False,
      cli_listen = SocketV4 (Ipv4 127 0 0 1) 50003,
      cli_upstream = \<lparr>host = ''127.0.0.1'', port = 50001\<rparr>,
      cli_relay_mode = Reject,
      cli_relay_endpoint = None,
      cli_socks5_proxy = SocketV4 (Ipv4 127 0 0 1) 9050,
      cli_max_connections = DEFAULT_MAX_CONNECTIONS,
      cli_max_concurrent_broadcasts = DEFAULT_MAX_CONCURRENT_BROADCASTS,
      cli_max_pending_requests = DEFAULT_MAX_PENDING_REQUESTS,
      cli_max_frame_bytes = DEFAULT_MAX_FRAME_BYTES,
      cli_connect_timeout_seconds = 10,
      cli_relay_timeout_seconds = 30,
      cli_allow_non_loopback_listen = False\<rparr>"

record config =
  listen :: socket_addr
  upstream :: endpoint
  relay_mode :: relay_mode
  relay_endpoint :: "endpoint option"
  socks5_proxy :: socket_addr
  max_connections :: usize
  max_concurrent_broadcasts :: concurrent_broadcast_limit
  max_pending_requests :: pending_request_limit
  max_frame_bytes :: usize
  connect_timeout :: duration
  relay_timeout :: duration

definition usize_string :: "usize \<Rightarrow> rstr" where
  "usize_string n = radix_string 10 (unat n)"

fun endpoint_error_string :: "endpoint_parse_error \<Rightarrow> rstr" where
  "endpoint_error_string (EndpointParseError m) = m"

definition pending_limit_try_from :: "usize \<Rightarrow> config_error + pending_request_limit" where
  "pending_limit_try_from value =
     (if \<not> (1 \<le> value \<and> value \<le> MAX_CONFIGURABLE_PENDING_REQUESTS)
      then Inl (ConfigError (''max pending requests must be between 1 and ''
             @ usize_string MAX_CONFIGURABLE_PENDING_REQUESTS))
      else Inr (PendingRequestLimit value))"

definition broadcast_limit_try_from :: "usize \<Rightarrow> config_error + concurrent_broadcast_limit" where
  "broadcast_limit_try_from value =
     (if \<not> (1 \<le> value \<and> value \<le> MAX_CONFIGURABLE_CONCURRENT_BROADCASTS)
      then Inl (ConfigError (''max concurrent broadcasts must be between 1 and ''
             @ usize_string MAX_CONFIGURABLE_CONCURRENT_BROADCASTS))
      else Inr (ConcurrentBroadcastLimit value))"

text \<open>The last block of the conversion: what the relay mode \<open>socks-electrum\<close> needs.\<close>

definition check_socks_mode :: "cli \<Rightarrow> config_error + unit" where
  "check_socks_mode cli =
     (if cli_relay_mode cli = SocksElectrum
      then
        try_bind (ok_or (ConfigError ''socks-electrum mode requires --relay-endpoint'')
                    (cli_relay_endpoint cli))
          (\<lambda>re.
            if same_target re (cli_upstream cli)
            then Inl (ConfigError ''private relay endpoint must differ from the query upstream'')
            else if could_target_listener re (cli_listen cli)
            then Inl (ConfigError ''private relay endpoint must not target the client listener'')
            else if could_target_listener
                      (endpoint_new (ip_string (socket_ip (cli_socks5_proxy cli)))
                         (socket_port (cli_socks5_proxy cli)))
                      (cli_listen cli)
            then Inl (ConfigError ''SOCKS5 proxy must not target the client listener'')
            else Inr ())
      else Inr ())"

definition check_endpoints :: "cli \<Rightarrow> config_error + unit" where
  "check_endpoints cli =
     (if socket_port (cli_listen cli) = 0
      then Inl (ConfigError ''listener port must be non-zero'')
      else if \<not> is_loopback (socket_ip (cli_listen cli)) \<and> \<not> cli_allow_non_loopback_listen cli
      then Inl (ConfigError ''refusing a non-loopback listener without --allow-non-loopback-listen'')
      else
        try_bind (map_err (\<lambda>error. ConfigError (''invalid query upstream: '' @ endpoint_error_string error))
                    (endpoint_validate (cli_upstream cli)))
          (\<lambda>_.
            if could_target_listener (cli_upstream cli) (cli_listen cli)
            then Inl (ConfigError ''query upstream must not target the client listener'')
            else if socket_port (cli_socks5_proxy cli) = 0
            then Inl (ConfigError ''SOCKS5 proxy port must be non-zero'')
            else
              (case cli_relay_endpoint cli of
                 None \<Rightarrow> Inr ()
               | Some re \<Rightarrow>
                   map_err (\<lambda>error. ConfigError (''invalid private relay endpoint: ''
                                                 @ endpoint_error_string error))
                     (endpoint_validate re))))"

definition config_try_from :: "cli \<Rightarrow> config_error + config" where
  "config_try_from cli =
     try_bind (check_endpoints cli) (\<lambda>_.
     if \<not> (1 \<le> cli_max_connections cli \<and> cli_max_connections cli \<le> MAX_CONFIGURABLE_CONNECTIONS)
     then Inl (ConfigError (''max connections must be between 1 and ''
            @ usize_string MAX_CONFIGURABLE_CONNECTIONS))
     else
     try_bind (broadcast_limit_try_from (cli_max_concurrent_broadcasts cli)) (\<lambda>broadcasts.
     try_bind (pending_limit_try_from (cli_max_pending_requests cli)) (\<lambda>pending.
     if \<not> (1024 \<le> cli_max_frame_bytes cli \<and> cli_max_frame_bytes cli \<le> MAX_CONFIGURABLE_FRAME_BYTES)
     then Inl (ConfigError (''max frame bytes must be between 1024 and ''
            @ usize_string MAX_CONFIGURABLE_FRAME_BYTES))
     else
     try_bind (ok_or (ConfigError ''broadcast payload budget overflowed'')
                 (checked_mul (cli_max_concurrent_broadcasts cli) (cli_max_frame_bytes cli)))
       (\<lambda>in_flight.
     if in_flight > MAX_CONFIGURABLE_IN_FLIGHT_BROADCAST_BYTES
     then Inl (ConfigError (''max concurrent broadcasts multiplied by max frame bytes must not exceed ''
            @ usize_string MAX_CONFIGURABLE_IN_FLIGHT_BROADCAST_BYTES))
     else if cli_connect_timeout_seconds cli = 0 \<or> cli_relay_timeout_seconds cli = 0
     then Inl (ConfigError ''timeouts must be greater than zero'')
     else
     try_bind (check_socks_mode cli) (\<lambda>_.
     Inr \<lparr>listen = cli_listen cli,
          upstream = cli_upstream cli,
          relay_mode = cli_relay_mode cli,
          relay_endpoint = cli_relay_endpoint cli,
          socks5_proxy = cli_socks5_proxy cli,
          max_connections = cli_max_connections cli,
          max_concurrent_broadcasts = broadcasts,
          max_pending_requests = pending,
          max_frame_bytes = cli_max_frame_bytes cli,
          connect_timeout = from_secs (cli_connect_timeout_seconds cli),
          relay_timeout = from_secs (cli_relay_timeout_seconds cli)\<rparr>)))))"

subsection \<open>The accepted command lines\<close>

definition valid_endpoint :: "endpoint \<Rightarrow> bool" where
  "valid_endpoint e \<longleftrightarrow> endpoint_validate e = Inr ()"

definition socks_endpoint :: "cli \<Rightarrow> endpoint" where
  "socks_endpoint cli = \<lparr>host = ip_string (socket_ip (cli_socks5_proxy cli)),
                         port = socket_port (cli_socks5_proxy cli)\<rparr>"

definition endpoints_accepted :: "cli \<Rightarrow> bool" where
  "endpoints_accepted cli \<longleftrightarrow>
     socket_port (cli_listen cli) \<noteq> 0
     \<and> (is_loopback (socket_ip (cli_listen cli)) \<or> cli_allow_non_loopback_listen cli)
     \<and> valid_endpoint (cli_upstream cli)
     \<and> \<not> could_target_listener (cli_upstream cli) (cli_listen cli)
     \<and> socket_port (cli_socks5_proxy cli) \<noteq> 0
     \<and> (\<forall>re. cli_relay_endpoint cli = Some re \<longrightarrow> valid_endpoint re)"

definition limits_accepted :: "cli \<Rightarrow> bool" where
  "limits_accepted cli \<longleftrightarrow>
     unat (cli_max_connections cli) \<in> {1..16384}
     \<and> unat (cli_max_concurrent_broadcasts cli) \<in> {1..1024}
     \<and> unat (cli_max_pending_requests cli) \<in> {1..16384}
     \<and> unat (cli_max_frame_bytes cli) \<in> {1024..16777216}
     \<and> unat (cli_max_concurrent_broadcasts cli) * unat (cli_max_frame_bytes cli) \<le> 134217728
     \<and> 0 < unat (cli_connect_timeout_seconds cli) \<and> 0 < unat (cli_relay_timeout_seconds cli)"

definition socks_accepted :: "cli \<Rightarrow> bool" where
  "socks_accepted cli \<longleftrightarrow>
     (cli_relay_mode cli = SocksElectrum \<longrightarrow>
        (\<exists>re. cli_relay_endpoint cli = Some re
           \<and> (port re, target_of re) \<noteq> (port (cli_upstream cli), target_of (cli_upstream cli))
           \<and> \<not> could_target_listener re (cli_listen cli)
           \<and> \<not> could_target_listener (socks_endpoint cli) (cli_listen cli)))"

lemma check_endpoints_iff: "check_endpoints cli = Inr u \<longleftrightarrow> endpoints_accepted cli"
  by (auto simp: check_endpoints_def endpoints_accepted_def valid_endpoint_def try_bind_eq_Inr
      split: option.splits)

lemma check_socks_mode_iff: "check_socks_mode cli = Inr u \<longleftrightarrow> socks_accepted cli"
  by (auto simp: check_socks_mode_def socks_accepted_def try_bind_eq_Inr socks_endpoint_def
      endpoint_new_def same_target_target_of)

lemma pending_limit_iff:
  "pending_limit_try_from v = Inr l \<longleftrightarrow> l = PendingRequestLimit v \<and> unat v \<in> {1..16384}"
  by (auto simp: pending_limit_try_from_def config_consts word_le_nat_alt)

lemma broadcast_limit_iff:
  "broadcast_limit_try_from v = Inr l \<longleftrightarrow> l = ConcurrentBroadcastLimit v \<and> unat v \<in> {1..1024}"
  by (auto simp: broadcast_limit_try_from_def config_consts word_le_nat_alt)

lemma payload_product_fits:
  assumes "unat b \<le> 1024" "unat f \<le> 16777216"
  shows "checked_mul b f = Some (b * f)" and "unat (b * f) = unat b * unat f"
proof -
  have "unat b * unat f \<le> 1024 * 16777216"
    using assms by (intro mult_le_mono)
  then have small: "unat b * unat f < 2 ^ 64" by simp
  then show "checked_mul b f = Some (b * f)" by (simp add: checked_mul_def)
  then show "unat (b * f) = unat b * unat f" by (rule checked_mul_SomeD)
qed

definition config_of_cli :: "cli \<Rightarrow> config" where
  "config_of_cli cli =
     \<lparr>listen = cli_listen cli, upstream = cli_upstream cli, relay_mode = cli_relay_mode cli,
      relay_endpoint = cli_relay_endpoint cli, socks5_proxy = cli_socks5_proxy cli,
      max_connections = cli_max_connections cli,
      max_concurrent_broadcasts = ConcurrentBroadcastLimit (cli_max_concurrent_broadcasts cli),
      max_pending_requests = PendingRequestLimit (cli_max_pending_requests cli),
      max_frame_bytes = cli_max_frame_bytes cli,
      connect_timeout = from_secs (cli_connect_timeout_seconds cli),
      relay_timeout = from_secs (cli_relay_timeout_seconds cli)\<rparr>"

lemma config_try_from_Inr:
  "config_try_from cli = Inr c \<longleftrightarrow>
     c = config_of_cli cli \<and> endpoints_accepted cli \<and> limits_accepted cli \<and> socks_accepted cli"
  (is "?L \<longleftrightarrow> ?R")
proof
  assume ?L
  then have e: "endpoints_accepted cli" and s: "socks_accepted cli"
    and b: "unat (cli_max_concurrent_broadcasts cli) \<in> {1..1024}"
    and p: "unat (cli_max_pending_requests cli) \<in> {1..16384}"
    and n: "unat (cli_max_connections cli) \<in> {1..16384}"
    and f: "unat (cli_max_frame_bytes cli) \<in> {1024..16777216}"
    and t: "cli_connect_timeout_seconds cli \<noteq> 0" "cli_relay_timeout_seconds cli \<noteq> 0"
    and c: "c = config_of_cli cli"
    and prod: "\<And>m. checked_mul (cli_max_concurrent_broadcasts cli) (cli_max_frame_bytes cli) = Some m
        \<Longrightarrow> unat m \<le> 134217728"
    by (auto simp: config_try_from_def try_bind_eq_Inr check_endpoints_iff check_socks_mode_iff
        pending_limit_iff broadcast_limit_iff config_of_cli_def config_consts word_le_nat_alt
        word_less_nat_alt not_less split: if_splits)
  have "unat (cli_max_concurrent_broadcasts cli) * unat (cli_max_frame_bytes cli) \<le> 134217728"
    using prod payload_product_fits b f by (metis atLeastAtMost_iff)
  with e s b p n f t c show ?R
    by (auto simp: limits_accepted_def unat_gt_0)
next
  assume r: ?R
  have prod: "checked_mul (cli_max_concurrent_broadcasts cli) (cli_max_frame_bytes cli)
      = Some (cli_max_concurrent_broadcasts cli * cli_max_frame_bytes cli)"
    "unat (cli_max_concurrent_broadcasts cli * cli_max_frame_bytes cli)
      = unat (cli_max_concurrent_broadcasts cli) * unat (cli_max_frame_bytes cli)"
    using r by (auto simp: limits_accepted_def intro!: payload_product_fits)
  obtain u where "check_endpoints cli = Inr u" using r check_endpoints_iff [of cli "()"] by auto
  moreover obtain u' where "check_socks_mode cli = Inr u'" using r check_socks_mode_iff [of cli "()"] by auto
  moreover have "broadcast_limit_try_from (cli_max_concurrent_broadcasts cli)
      = Inr (ConcurrentBroadcastLimit (cli_max_concurrent_broadcasts cli))"
    "pending_limit_try_from (cli_max_pending_requests cli)
      = Inr (PendingRequestLimit (cli_max_pending_requests cli))"
    using r by (auto simp: limits_accepted_def pending_limit_iff broadcast_limit_iff)
  ultimately show ?L
    using r prod
    by (auto simp: config_try_from_def limits_accepted_def config_of_cli_def config_consts
        word_le_nat_alt word_less_nat_alt)
qed

subsection \<open>What an accepted configuration guarantees\<close>

text \<open>The bounds the runtime relies on, as facts of the configuration alone.\<close>

definition config_bounded :: "config \<Rightarrow> bool" where
  "config_bounded c \<longleftrightarrow>
     unat (max_connections c) \<in> {1..16384}
     \<and> unat (broadcast_limit_get (max_concurrent_broadcasts c)) \<in> {1..1024}
     \<and> unat (pending_limit_get (max_pending_requests c)) \<in> {1..16384}
     \<and> unat (max_frame_bytes c) \<in> {1024..16777216}
     \<and> unat (broadcast_limit_get (max_concurrent_broadcasts c)) * unat (max_frame_bytes c)
        \<le> unat MAX_CONFIGURABLE_IN_FLIGHT_BROADCAST_BYTES"

lemma config_try_from_bounded: "config_try_from cli = Inr c \<Longrightarrow> config_bounded c"
  by (auto simp: config_try_from_Inr config_bounded_def limits_accepted_def config_of_cli_def
      MAX_CONFIGURABLE_IN_FLIGHT_BROADCAST_BYTES_def)

lemma config_try_from_relay_endpoint:
  "config_try_from cli = Inr c \<Longrightarrow> relay_mode c = SocksElectrum \<Longrightarrow> relay_endpoint c \<noteq> None"
  by (auto simp: config_try_from_Inr config_of_cli_def socks_accepted_def)

lemma cli_defaults_config: "config_try_from cli_defaults = Inr (config_of_cli cli_defaults)"
  by code_simp

subsection \<open>Properties of the configuration\<close>

lemma try_bind_eq_Inl:
  "try_bind r f = Inl e \<longleftrightarrow> r = Inl e \<or> (\<exists>x. r = Inr x \<and> f x = Inl e)"
  by (cases r) auto

lemma payload_overflow_unreachable:
  "config_try_from cli \<noteq> Inl (ConfigError ''broadcast payload budget overflowed'')"
proof
  let ?e = "ConfigError ''broadcast payload budget overflowed''"
  assume err: "config_try_from cli = Inl ?e"
  have "map_err f r = Inl e \<longleftrightarrow> (\<exists>d. r = Inl d \<and> e = f d)" for f :: "endpoint_parse_error \<Rightarrow> config_error" and r :: "endpoint_parse_error + unit" and e
    by (cases r) auto
  then have "check_endpoints cli \<noteq> Inl ?e"
    by (auto simp: check_endpoints_def try_bind_eq_Inl split: option.splits)
  moreover have "check_socks_mode cli \<noteq> Inl ?e"
    by (auto simp: check_socks_mode_def try_bind_eq_Inl ok_or_def split: option.splits if_splits)
  moreover have "broadcast_limit_try_from v \<noteq> Inl ?e" "pending_limit_try_from v \<noteq> Inl ?e" for v
    by (auto simp: broadcast_limit_try_from_def pending_limit_try_from_def split: if_splits)
  ultimately have b: "unat (cli_max_concurrent_broadcasts cli) \<in> {1..1024}"
    and f: "unat (cli_max_frame_bytes cli) \<le> 16777216"
    and none: "checked_mul (cli_max_concurrent_broadcasts cli) (cli_max_frame_bytes cli) = None"
    using err
    by (auto simp: config_try_from_def try_bind_eq_Inl broadcast_limit_iff config_consts
        word_le_nat_alt ok_or_def split: if_splits option.splits)
  then show False using payload_product_fits(1) [of "cli_max_concurrent_broadcasts cli"] by auto
qed

text \<open>
  C21: the conversion accepts a command line exactly when its endpoints, its limits and its
  relay mode are safe, read as natural numbers and abstract targets, and then returns its
  fields unchanged. In particular the product of the broadcast limit and the frame size never
  overflows, so that the error for an overflow is unreachable.
\<close>

theorem config_try_from_accepts:
  "(config_try_from cli = Inr c
     \<longleftrightarrow> c = config_of_cli cli \<and> endpoints_accepted cli \<and> limits_accepted cli \<and> socks_accepted cli)
   \<and> config_try_from cli \<noteq> Inl (ConfigError ''broadcast payload budget overflowed'')"
  using config_try_from_Inr payload_overflow_unreachable by simp

text \<open>
  An accepted configuration keeps the three roles apart as far as they can be told apart
  without resolving names. The query upstream is not an alias of the listener; in the relay
  mode \<open>socks-electrum\<close> there is a relay endpoint, and it is neither the query upstream nor
  an alias of the listener; and a listener that is not on a loopback address was allowed
  explicitly.
\<close>

lemma config_separates_roles:
  assumes "config_try_from cli = Inr c"
  shows "\<not> could_target_listener (upstream c) (listen c)
    \<and> (is_loopback (socket_ip (listen c)) \<or> cli_allow_non_loopback_listen cli)
    \<and> (relay_mode c = SocksElectrum \<longrightarrow>
        (\<exists>re. relay_endpoint c = Some re \<and> valid_endpoint re
           \<and> \<not> same_target re (upstream c) \<and> \<not> same_target (upstream c) re
           \<and> \<not> could_target_listener re (listen c)))"
  using assms
  by (auto simp: config_try_from_Inr config_of_cli_def endpoints_accepted_def socks_accepted_def
      same_target_target_of)

text \<open>
  The declared defaults are accepted, and they are the safe ones: a loopback listener and
  the relay mode that rejects every broadcast.
\<close>

lemma config_defaults_accepted:
  "config_try_from cli_defaults = Inr (config_of_cli cli_defaults)
   \<and> is_loopback (socket_ip (listen (config_of_cli cli_defaults)))
   \<and> relay_mode (config_of_cli cli_defaults) = Reject"
  using cli_defaults_config by (simp add: config_of_cli_def cli_defaults_def)

end
