(* ===== verification/Relay.thy ===== *)
theory Relay
  imports Config Protocol
begin

text \<open>
  \<open>src/relay/mod.rs\<close> and \<open>src/relay/reject.rs\<close>: the error of a relay, the trait every
  adapter implements and the adapter that is the safe default. A call of \<open>broadcast\<close> is its
  outcome, an error or the text of a transaction identifier.

  The locale \<open>relay_contract\<close> is the contract of an adapter (\<open>docs/relay-adapters.md\<close>):
  a success is a transaction identifier of 64 hexadecimal digits. What the proxy does with the
  outcome of a relay is proved from it once.
\<close>

datatype relay_error_kind = Disabled | FailedKind

record relay_error =
  error_kind :: relay_error_kind

definition relay_error_disabled :: relay_error where
  "relay_error_disabled = \<lparr>error_kind = Disabled\<rparr>"

definition relay_error_failed :: relay_error where
  "relay_error_failed = \<lparr>error_kind = FailedKind\<rparr>"

fun relay_error_string :: "relay_error_kind \<Rightarrow> rstr" where
  "relay_error_string Disabled = ''private relay is disabled''"
| "relay_error_string FailedKind = ''private relay failed''"

type_synonym relay_outcome = "relay_error + rstr"

definition reject_broadcast :: "rstr \<Rightarrow> relay_outcome" where
  "reject_broadcast raw_transaction = Inl relay_error_disabled"

text \<open>The response the proxy makes of an outcome (the match in \<open>handle_client_frames\<close>).\<close>

definition broadcast_response :: "serde \<Rightarrow> value \<Rightarrow> relay_outcome \<Rightarrow> bytes option" where
  "broadcast_response S ident outcome =
     (case outcome of
        Inr transaction_id \<Rightarrow> success_response S ident transaction_id
      | Inl error \<Rightarrow> relay_error_response S ident (error_kind error = Disabled))"

definition transaction_id :: "rstr \<Rightarrow> bool" where
  "transaction_id t \<longleftrightarrow> length t = 64 \<and> list_all is_ascii_hexdigit t"

locale relay_contract =
  fixes broadcast :: "'env \<Rightarrow> rstr \<Rightarrow> relay_outcome"
  assumes success_shape: "broadcast env raw = Inr t \<Longrightarrow> transaction_id t"
begin

text \<open>
  Every outcome becomes a response for the identifier of the request: either a result that is
  a transaction identifier, or one of the two errors.
\<close>

lemma response_cases:
  "(\<exists>t. transaction_id t \<and> broadcast_response S ident (broadcast env raw) = success_response S ident t)
   \<or> (\<exists>disabled. broadcast_response S ident (broadcast env raw) = relay_error_response S ident disabled)"
  using success_shape [of env raw]
  by (cases "broadcast env raw") (auto simp: broadcast_response_def)

end

interpretation reject: relay_contract "\<lambda>(env :: unit) raw. reject_broadcast raw"
  by unfold_locales (simp add: reject_broadcast_def)

lemma broadcast_response_total: "serde_total S \<Longrightarrow> broadcast_response S ident outcome \<noteq> None"
  by (cases outcome) (auto simp: broadcast_response_def dest: responses_total)

end
