(* ===== verification/Connection.thy ===== *)
theory Connection
  imports Pending Framing Relay
begin

text \<open>
  One connection of \<open>src/proxy.rs\<close>: the three tasks that \<open>proxy_streams_until\<close> spawns and
  supervises. Each task is a program counter, one value for each place where the code awaits,
  and an operation that runs it from there to the next such place: \<open>client_poll\<close> for
  \<open>handle_client_frames\<close>, \<open>upstream_poll\<close> for \<open>forward_upstream_frames\<close>, \<open>writer_poll\<close>
  for \<open>write_client_output\<close>, \<open>supervisor_poll\<close> for \<open>proxy_streams_until\<close> itself. They share
  the table of pending requests and a channel of 32 frames. What the outside world decides is
  an event: that a write completed or failed after some bytes, that the relay returned, that
  shutdown was signalled, that a timeout expired. A run is a list of events, in any order, so
  that a fact about all runs is a fact about every schedule of the tasks.

  The state also records what has happened: the frames read from the wallet, the bytes written
  to the upstream and to the wallet, the calls of the relay and its outcomes, the frames put
  into the channel with their origin.
\<close>

definition CHANNEL_FRAMES :: nat where
  "CHANNEL_FRAMES = 32"

record connection_limits =
  limit_frame_bytes :: usize
  limit_pending :: usize

record shutdown_watch =
  requested :: bool
  sender_alive :: bool

text \<open>\<open>wait_for_shutdown\<close> is ready when the value is true or the sender is gone.\<close>

definition wait_for_shutdown :: "shutdown_watch \<Rightarrow> bool" where
  "wait_for_shutdown w \<longleftrightarrow> requested w \<or> \<not> sender_alive w"

datatype origin = FromUpstream | RelayReply | ErrorReply

datatype client_pc =
    CRead
  | CReserveUpstream rstr "value" bytes
  | CReserveBroadcast rstr "value" rstr
  | CWrite bytes
  | CCall "value" rstr "rstr option"
  | CRelay "value" rstr "rstr option"
  | CRelease bytes "rstr option"
  | CSend origin bytes
  | CDone "io_error_kind + unit"
  | CPanicked
  | CCancelled

datatype upstream_pc =
    URead
  | ULookup rstr bytes
  | USend bytes
  | UDone "io_error_kind + unit"
  | UCancelled

datatype writer_pc =
    WRecv
  | WWrite bytes
  | WClose
  | WDone "io_error_kind + unit"
  | WCancelled

datatype finished_task = WriterTask | UpstreamTask | ClientTask

datatype supervisor_pc =
    SSelect
  | SAwaitBoth
  | SAwaitClient
  | SAwaitUpstream
  | SFlush
  | SAwaitWriter
  | SDone
  | SDropped

record conn =
  c_pc :: client_pc
  u_pc :: upstream_pc
  w_pc :: writer_pc
  s_pc :: supervisor_pc
  c_abort :: bool
  u_abort :: bool
  w_abort :: bool
  shutdown :: shutdown_watch
  client_in :: byte_stream
  upstream_in :: byte_stream
  pending_table :: pending_requests
  channel :: "bytes list"
  c_frames :: "bytes list"
  to_upstream :: bytes
  relayed :: "(value \<times> rstr) list"
  outcomes :: "relay_outcome list"
  sent :: "(origin \<times> bytes) list"
  to_client :: bytes

fun c_finished :: "client_pc \<Rightarrow> bool" where
  "c_finished (CDone r) = True"
| "c_finished CPanicked = True"
| "c_finished CCancelled = True"
| "c_finished _ = False"

fun u_finished :: "upstream_pc \<Rightarrow> bool" where
  "u_finished (UDone r) = True"
| "u_finished UCancelled = True"
| "u_finished _ = False"

fun w_finished :: "writer_pc \<Rightarrow> bool" where
  "w_finished (WDone r) = True"
| "w_finished WCancelled = True"
| "w_finished _ = False"

subsection \<open>The channel to the writer\<close>

text \<open>
  A send waits while the channel is full (\<open>None\<close>), fails when the receiver is gone, and
  appends otherwise.
\<close>

definition channel_send :: "origin \<Rightarrow> bytes \<Rightarrow> conn \<Rightarrow> (bool \<times> conn) option" where
  "channel_send src frame c =
     (if w_finished (w_pc c) then Some (False, c)
      else if length (channel c) < CHANNEL_FRAMES
      then Some (True, c\<lparr>channel := channel c @ [frame], sent := sent c @ [(src, frame)]\<rparr>)
      else None)"

subsection \<open>The client task\<close>

fun reply_pc :: "origin \<Rightarrow> bytes option \<Rightarrow> client_pc" where
  "reply_pc src (Some response) = CSend src response"
| "reply_pc src None = CPanicked"

definition client_dispatch :: "serde \<Rightarrow> bytes \<Rightarrow> client_pc" where
  "client_dispatch S frame =
     (case classify S frame of
        Inr (Passthrough None) \<Rightarrow> CWrite frame
      | Inr (Passthrough (Some ident)) \<Rightarrow>
          (case request_id_key S ident of
             None \<Rightarrow> CPanicked
           | Some key \<Rightarrow> CReserveUpstream key ident frame)
      | Inr (Broadcast ident raw_transaction) \<Rightarrow>
          (case request_id_key S ident of
             None \<Rightarrow> CCall ident raw_transaction None
           | Some key \<Rightarrow> CReserveBroadcast key ident raw_transaction)
      | Inl error \<Rightarrow> reply_pc ErrorReply (error_response S error))"

definition client_read :: "serde \<Rightarrow> connection_limits \<Rightarrow> conn \<Rightarrow> conn" where
  "client_read S limits c =
     (if wait_for_shutdown (shutdown c) then c\<lparr>c_pc := CDone (Inr ())\<rparr>
      else case read_frame (limit_frame_bytes limits) (client_in c) of
             Inr (Some frame, rest) \<Rightarrow>
               c\<lparr>client_in := rest, c_frames := c_frames c @ [frame], c_pc := client_dispatch S frame\<rparr>
           | Inr (None, rest) \<Rightarrow> c\<lparr>c_pc := CDone (Inr ())\<rparr>
           | Inl InvalidData \<Rightarrow> c\<lparr>c_pc := reply_pc ErrorReply (invalid_frame_response S)\<rparr>
           | Inl error \<Rightarrow> c\<lparr>c_pc := CDone (Inl error)\<rparr>)"

definition client_reserve ::
  "serde \<Rightarrow> connection_limits \<Rightarrow> rstr \<Rightarrow> value \<Rightarrow> pending_request \<Rightarrow> client_pc \<Rightarrow> conn \<Rightarrow> conn" where
  "client_reserve S limits key ident kind next_pc c =
     (case reserve_request (pending_table c) key kind (limit_pending limits) of
        (Reserved, table) \<Rightarrow> c\<lparr>pending_table := table, c_pc := next_pc\<rparr>
      | (Duplicate, table) \<Rightarrow>
          c\<lparr>pending_table := table, c_pc := reply_pc ErrorReply (invalid_frame_response S)\<rparr>
      | (LimitExceeded, table) \<Rightarrow>
          c\<lparr>pending_table := table, c_pc := reply_pc ErrorReply (pending_request_limit_response S ident)\<rparr>)"

definition client_poll :: "serde \<Rightarrow> connection_limits \<Rightarrow> conn \<Rightarrow> conn option" where
  "client_poll S limits c =
     (case c_pc c of
        CRead \<Rightarrow> Some (client_read S limits c)
      | CReserveUpstream key ident frame \<Rightarrow>
          Some (client_reserve S limits key ident Upstream (CWrite frame) c)
      | CReserveBroadcast key ident raw \<Rightarrow>
          Some (client_reserve S limits key ident BroadcastPending (CCall ident raw (Some key)) c)
      | CCall ident raw key \<Rightarrow>
          Some (c\<lparr>relayed := relayed c @ [(ident, raw)], c_pc := CRelay ident raw key\<rparr>)
      | CRelease response key \<Rightarrow>
          Some (c\<lparr>pending_table := (case key of None \<Rightarrow> pending_table c | Some k \<Rightarrow> table_remove k (pending_table c)),
                  c_pc := CSend RelayReply response\<rparr>)
      | CSend src response \<Rightarrow>
          (case channel_send src response c of
             None \<Rightarrow> None
           | Some (ok, c') \<Rightarrow>
               Some (c'\<lparr>c_pc := (if ok \<and> src = RelayReply then CRead else CDone (Inr ()))\<rparr>))
      | _ \<Rightarrow> None)"

text \<open>The write to the upstream completes, or fails after some of the bytes.\<close>

definition client_written :: "(nat \<times> io_error_kind) option \<Rightarrow> conn \<Rightarrow> conn option" where
  "client_written failure c =
     (case c_pc c of
        CWrite frame \<Rightarrow>
          (case failure of
             None \<Rightarrow> Some (c\<lparr>to_upstream := to_upstream c @ frame, c_pc := CRead\<rparr>)
           | Some (n, error) \<Rightarrow>
               Some (c\<lparr>to_upstream := to_upstream c @ take n frame, c_pc := CDone (Inl error)\<rparr>))
      | _ \<Rightarrow> None)"

definition relay_returns :: "serde \<Rightarrow> relay_outcome \<Rightarrow> conn \<Rightarrow> conn option" where
  "relay_returns S outcome c =
     (case c_pc c of
        CRelay ident raw key \<Rightarrow>
          Some (c\<lparr>outcomes := outcomes c @ [outcome],
                  c_pc := (case broadcast_response S ident outcome of
                             None \<Rightarrow> CPanicked
                           | Some response \<Rightarrow> CRelease response key)\<rparr>)
      | _ \<Rightarrow> None)"

subsection \<open>The upstream task\<close>

definition upstream_dispatch :: "serde \<Rightarrow> bytes \<Rightarrow> upstream_pc" where
  "upstream_dispatch S frame =
     (case from_slice_envelope S frame of
        None \<Rightarrow> UDone (Inl InvalidData)
      | Some envelope \<Rightarrow>
          (case (env_id envelope, env_method envelope) of
             (Some ident, None) \<Rightarrow>
               (case request_id_key S ident of
                  None \<Rightarrow> UDone (Inl InvalidData)
                | Some key \<Rightarrow> ULookup key frame)
           | (None, Some _) \<Rightarrow> USend frame
           | _ \<Rightarrow> UDone (Inl InvalidData)))"

definition upstream_poll :: "serde \<Rightarrow> connection_limits \<Rightarrow> conn \<Rightarrow> conn option" where
  "upstream_poll S limits c =
     (case u_pc c of
        URead \<Rightarrow>
          Some (case read_frame (limit_frame_bytes limits) (upstream_in c) of
                  Inr (Some frame, rest) \<Rightarrow> c\<lparr>upstream_in := rest, u_pc := upstream_dispatch S frame\<rparr>
                | Inr (None, rest) \<Rightarrow> c\<lparr>u_pc := UDone (Inr ())\<rparr>
                | Inl error \<Rightarrow> c\<lparr>u_pc := UDone (Inl error)\<rparr>)
      | ULookup key frame \<Rightarrow>
          Some (case table_get (pending_table c) key of
                  Some Upstream \<Rightarrow>
                    c\<lparr>pending_table := table_remove key (pending_table c), u_pc := USend frame\<rparr>
                | _ \<Rightarrow> c\<lparr>u_pc := URead\<rparr>)
      | USend frame \<Rightarrow>
          (case channel_send FromUpstream frame c of
             None \<Rightarrow> None
           | Some (ok, c') \<Rightarrow> Some (c'\<lparr>u_pc := (if ok then URead else UDone (Inr ()))\<rparr>))
      | _ \<Rightarrow> None)"

subsection \<open>The writer task\<close>

definition writer_poll :: "conn \<Rightarrow> conn option" where
  "writer_poll c =
     (case w_pc c of
        WRecv \<Rightarrow>
          (case channel c of
             frame # rest \<Rightarrow> Some (c\<lparr>channel := rest, w_pc := WWrite frame\<rparr>)
           | [] \<Rightarrow> if c_finished (c_pc c) \<and> u_finished (u_pc c) then Some (c\<lparr>w_pc := WClose\<rparr>) else None)
      | _ \<Rightarrow> None)"

text \<open>The write to the wallet, or the shutdown of the socket, completes or fails.\<close>

definition writer_written :: "(nat \<times> io_error_kind) option \<Rightarrow> conn \<Rightarrow> conn option" where
  "writer_written failure c =
     (case w_pc c of
        WWrite frame \<Rightarrow>
          (case failure of
             None \<Rightarrow> Some (c\<lparr>to_client := to_client c @ frame, w_pc := WRecv\<rparr>)
           | Some (n, error) \<Rightarrow>
               Some (c\<lparr>to_client := to_client c @ take n frame, w_pc := WDone (Inl error)\<rparr>))
      | WClose \<Rightarrow>
          (case failure of
             None \<Rightarrow> Some (c\<lparr>w_pc := WDone (Inr ())\<rparr>)
           | Some (n, error) \<Rightarrow> Some (c\<lparr>w_pc := WDone (Inl error)\<rparr>))
      | _ \<Rightarrow> None)"

subsection \<open>The supervisor\<close>

definition supervisor_select :: "finished_task \<Rightarrow> conn \<Rightarrow> conn option" where
  "supervisor_select finished c =
     (if s_pc c \<noteq> SSelect then None
      else case finished of
             WriterTask \<Rightarrow>
               if w_finished (w_pc c)
               then Some (c\<lparr>u_abort := True, c_abort := True, s_pc := SAwaitBoth\<rparr>) else None
           | UpstreamTask \<Rightarrow>
               if u_finished (u_pc c) then Some (c\<lparr>c_abort := True, s_pc := SAwaitClient\<rparr>) else None
           | ClientTask \<Rightarrow>
               if c_finished (c_pc c) then Some (c\<lparr>u_abort := True, s_pc := SAwaitUpstream\<rparr>) else None)"

definition supervisor_poll :: "conn \<Rightarrow> conn option" where
  "supervisor_poll c =
     (case s_pc c of
        SAwaitBoth \<Rightarrow>
          if u_finished (u_pc c) \<and> c_finished (c_pc c) then Some (c\<lparr>s_pc := SDone\<rparr>) else None
      | SAwaitClient \<Rightarrow> if c_finished (c_pc c) then Some (c\<lparr>s_pc := SFlush\<rparr>) else None
      | SAwaitUpstream \<Rightarrow> if u_finished (u_pc c) then Some (c\<lparr>s_pc := SFlush\<rparr>) else None
      | SFlush \<Rightarrow> if w_finished (w_pc c) then Some (c\<lparr>s_pc := SDone\<rparr>) else None
      | SAwaitWriter \<Rightarrow> if w_finished (w_pc c) then Some (c\<lparr>s_pc := SDone\<rparr>) else None
      | _ \<Rightarrow> None)"

text \<open>The grace period of \<open>finish_or_abort\<close> is over before the writer is done.\<close>

definition flush_expires :: "conn \<Rightarrow> conn option" where
  "flush_expires c =
     (if s_pc c = SFlush \<and> \<not> w_finished (w_pc c)
      then Some (c\<lparr>w_abort := True, s_pc := SAwaitWriter\<rparr>) else None)"

text \<open>The connection task itself is cancelled: the drop of the three handles aborts the tasks.\<close>

definition drop_connection :: "conn \<Rightarrow> conn option" where
  "drop_connection c =
     (if s_pc c = SDone \<or> s_pc c = SDropped then None
      else Some (c\<lparr>c_abort := True, u_abort := True, w_abort := True, s_pc := SDropped\<rparr>))"

text \<open>
  An abort takes effect at a place where the task awaits; until then it may run on.
\<close>

definition cancel :: "finished_task \<Rightarrow> conn \<Rightarrow> conn option" where
  "cancel task c =
     (case task of
        ClientTask \<Rightarrow> if c_abort c \<and> \<not> c_finished (c_pc c) then Some (c\<lparr>c_pc := CCancelled\<rparr>) else None
      | UpstreamTask \<Rightarrow> if u_abort c \<and> \<not> u_finished (u_pc c) then Some (c\<lparr>u_pc := UCancelled\<rparr>) else None
      | WriterTask \<Rightarrow> if w_abort c \<and> \<not> w_finished (w_pc c) then Some (c\<lparr>w_pc := WCancelled\<rparr>) else None)"

subsection \<open>Runs\<close>

datatype conn_event =
    ClientPoll
  | ClientWritten "(nat \<times> io_error_kind) option"
  | RelayReturns relay_outcome
  | UpstreamPoll
  | WriterPoll
  | WriterWritten "(nat \<times> io_error_kind) option"
  | Select finished_task
  | SupervisorPoll
  | FlushExpires
  | DropConnection
  | Cancel finished_task
  | Shutdown shutdown_watch

fun conn_step :: "serde \<Rightarrow> connection_limits \<Rightarrow> conn_event \<Rightarrow> conn \<Rightarrow> conn option" where
  "conn_step S limits ClientPoll c = client_poll S limits c"
| "conn_step S limits (ClientWritten f) c = client_written f c"
| "conn_step S limits (RelayReturns r) c = relay_returns S r c"
| "conn_step S limits UpstreamPoll c = upstream_poll S limits c"
| "conn_step S limits WriterPoll c = writer_poll c"
| "conn_step S limits (WriterWritten f) c = writer_written f c"
| "conn_step S limits (Select t) c = supervisor_select t c"
| "conn_step S limits SupervisorPoll c = supervisor_poll c"
| "conn_step S limits FlushExpires c = flush_expires c"
| "conn_step S limits DropConnection c = drop_connection c"
| "conn_step S limits (Cancel t) c = cancel t c"
| "conn_step S limits (Shutdown w) c =
     (if \<not> wait_for_shutdown (shutdown c) \<and> wait_for_shutdown w then Some (c\<lparr>shutdown := w\<rparr>) else None)"

fun conn_run :: "serde \<Rightarrow> connection_limits \<Rightarrow> conn_event list \<Rightarrow> conn \<Rightarrow> conn option" where
  "conn_run S limits [] c = Some c"
| "conn_run S limits (e # es) c =
     (case conn_step S limits e c of None \<Rightarrow> None | Some c' \<Rightarrow> conn_run S limits es c')"

definition proxy_streams_start :: "byte_stream \<Rightarrow> byte_stream \<Rightarrow> conn" where
  "proxy_streams_start client_stream upstream_stream =
     \<lparr>c_pc = CRead, u_pc = URead, w_pc = WRecv, s_pc = SSelect,
      c_abort = False, u_abort = False, w_abort = False,
      shutdown = \<lparr>requested = False, sender_alive = True\<rparr>,
      client_in = client_stream, upstream_in = upstream_stream, pending_table = [], channel = [],
      c_frames = [], to_upstream = [], relayed = [], outcomes = [], sent = [], to_client = []\<rparr>"

end
