(* ===== verification/Connection_Inv.thy ===== *)
theory Connection_Inv
  imports Connection "HOL-Library.Sublist"
begin

text \<open>
  The invariants of a connection, each kept by every event: what was read is a prefix of the
  wallet's stream (\<open>read_prefix\<close>); what was written to the upstream and given to the relay
  (\<open>log_inv\<close>); the replies of the proxy (\<open>reply_inv\<close>); the table (\<open>table_inv\<close>); the
  correlation of responses with requests, per key (\<open>correlation_inv\<close>, \<open>reserved_inv\<close>); the
  output to the wallet (\<open>output_inv\<close>, \<open>lines_inv\<close>); the supervision of the tasks
  (\<open>supervised\<close>). The properties of a connection in \<open>Connection_Props\<close> follow from them.
\<close>

subsection \<open>Invariants of runs\<close>

lemma conn_run_invariant:
  assumes "conn_run S limits es c = Some c'" "P c"
    and "\<And>e c c'. conn_step S limits e c = Some c' \<Longrightarrow> P c \<Longrightarrow> P c'"
  shows "P c'"
  using assms(1,2)
proof (induction es arbitrary: c)
  case (Cons e es)
  then obtain d where "conn_step S limits e c = Some d" "conn_run S limits es d = Some c'"
    by (auto split: option.splits)
  with Cons.IH Cons.prems(2) assms(3) show ?case by blast
qed simp

lemmas step_defs = client_poll_def client_written_def relay_returns_def upstream_poll_def writer_poll_def
  writer_written_def supervisor_select_def supervisor_poll_def flush_expires_def drop_connection_def
  cancel_def

lemmas step_splits = client_pc.splits upstream_pc.splits writer_pc.splits supervisor_pc.splits
  finished_task.splits option.splits sum.splits prod.splits list.splits if_splits io_error_kind.splits
  pending_request.splits reservation.splits

definition is_passthrough :: "serde \<Rightarrow> bytes \<Rightarrow> bool" where
  "is_passthrough S frame \<longleftrightarrow> (case classify S frame of Inr (Passthrough _) \<Rightarrow> True | _ \<Rightarrow> False)"

definition broadcast_of :: "serde \<Rightarrow> bytes \<Rightarrow> (value \<times> rstr) option" where
  "broadcast_of S frame =
     (case classify S frame of Inr (Broadcast ident raw) \<Rightarrow> Some (ident, raw) | _ \<Rightarrow> None)"

text \<open>Steps of the other tasks leave what the client task has done alone.\<close>

fun client_event :: "conn_event \<Rightarrow> bool" where
  "client_event ClientPoll = True"
| "client_event (ClientWritten f) = True"
| "client_event (RelayReturns r) = True"
| "client_event _ = False"

lemma other_events_frame:
  assumes "conn_step S limits e c = Some c'" "\<not> client_event e"
  shows "c_frames c' = c_frames c \<and> to_upstream c' = to_upstream c \<and> relayed c' = relayed c
    \<and> outcomes c' = outcomes c \<and> client_in c' = client_in c
    \<and> (c_pc c' = c_pc c \<or> c_pc c' = CCancelled)
    \<and> filter (\<lambda>x. fst x \<noteq> FromUpstream) (sent c') = filter (\<lambda>x. fst x \<noteq> FromUpstream) (sent c)"
  using assms
  by (cases e) (auto simp: step_defs channel_send_def split: step_splits)

definition read_prefix :: "connection_limits \<Rightarrow> byte_stream \<Rightarrow> conn \<Rightarrow> bool" where
  "read_prefix limits s c \<longleftrightarrow>
     incoming s = concat (c_frames c) @ incoming (client_in c)
     \<and> list_all (frame_ok (limit_frame_bytes limits)) (c_frames c)"

lemma read_prefix_step:
  assumes "usable_limit (limit_frame_bytes limits)" "conn_step S limits e c = Some c'" "read_prefix limits s c"
  shows "read_prefix limits s c'"
proof (cases "client_event e")
  case False
  with other_events_frame [OF assms(2)] assms(3) show ?thesis by (simp add: read_prefix_def)
next
  case True
  with assms(2,3) show ?thesis
    by (cases e)
      (auto simp: step_defs channel_send_def client_read_def client_reserve_def read_prefix_def
        read_frame_SomeD(1,2) [OF usable_limit_neq [OF assms(1)]]
        split: step_splits)
qed

subsection \<open>What reaches the upstream and the relay\<close>

definition passed :: "serde \<Rightarrow> conn \<Rightarrow> bytes" where
  "passed S c = concat (filter (is_passthrough S) (c_frames c))"

definition broadcasts :: "serde \<Rightarrow> conn \<Rightarrow> (value \<times> rstr) list" where
  "broadcasts S c = List.map_filter (broadcast_of S) (c_frames c)"

definition accepted :: "serde \<Rightarrow> bytes \<Rightarrow> bool" where
  "accepted S frame \<longleftrightarrow> is_passthrough S frame \<or> broadcast_of S frame \<noteq> None"

definition logs_stopped :: "serde \<Rightarrow> conn \<Rightarrow> bool" where
  "logs_stopped S c \<longleftrightarrow> prefix (to_upstream c) (passed S c)
     \<and> (relayed c = broadcasts S c \<or> (\<exists>x. relayed c @ [x] = broadcasts S c))
     \<and> list_all (accepted S) (butlast (c_frames c))"

definition logs_running :: "serde \<Rightarrow> conn \<Rightarrow> bytes \<Rightarrow> (value \<times> rstr) list \<Rightarrow> bool" where
  "logs_running S c frame call \<longleftrightarrow> to_upstream c @ frame = passed S c
     \<and> relayed c @ call = broadcasts S c \<and> list_all (accepted S) (c_frames c)"

fun due_write :: "client_pc \<Rightarrow> bytes" where
  "due_write (CReserveUpstream key ident frame) = frame"
| "due_write (CWrite frame) = frame"
| "due_write _ = []"

fun due_call :: "client_pc \<Rightarrow> (value \<times> rstr) list" where
  "due_call (CReserveBroadcast key ident raw) = [(ident, raw)]"
| "due_call (CCall ident raw key) = [(ident, raw)]"
| "due_call _ = []"

fun stopping :: "client_pc \<Rightarrow> bool" where
  "stopping (CSend src b) = (src \<noteq> RelayReply)"
| "stopping pc = c_finished pc"

definition log_inv :: "serde \<Rightarrow> conn \<Rightarrow> bool" where
  "log_inv S c \<longleftrightarrow>
     (if stopping (c_pc c) then logs_stopped S c
      else logs_running S c (due_write (c_pc c)) (due_call (c_pc c)))"

lemma list_all_butlast: "list_all P xs \<Longrightarrow> list_all P (butlast xs)"
  by (induction xs) auto

lemma running_stopped: "logs_running S c frame call \<Longrightarrow> length call \<le> 1 \<Longrightarrow> logs_stopped S c"
  by (cases call) (auto simp: logs_running_def logs_stopped_def list_all_butlast intro: prefixI [OF sym])

lemma length_due_call: "length (due_call pc) \<le> 1"
  by (cases pc) auto

lemma log_inv_stopped: "log_inv S c \<Longrightarrow> logs_stopped S c"
  by (auto simp: log_inv_def intro: running_stopped [OF _ length_due_call] split: if_splits)

lemma stopping_reply [simp]: "stopping (reply_pc ErrorReply r)"
  by (cases r) auto

lemma map_filter_snoc: "List.map_filter f (xs @ [x]) = List.map_filter f xs @ (case f x of None \<Rightarrow> [] | Some y \<Rightarrow> [y])"
  by (simp add: List.map_filter_def split: option.splits)

lemma dispatch_logs:
  assumes "logs_running S c [] []"
  shows "log_inv S (c\<lparr>client_in := rest, c_frames := c_frames c @ [frame], c_pc := client_dispatch S frame\<rparr>)"
proof -
  have logs: "to_upstream c = passed S c" "relayed c = broadcasts S c" "list_all (accepted S) (c_frames c)"
    using assms by (simp_all add: logs_running_def)
  then show ?thesis
    by (auto simp: log_inv_def client_dispatch_def logs_running_def logs_stopped_def passed_def
        broadcasts_def map_filter_snoc is_passthrough_def broadcast_of_def accepted_def
        split: sum.splits client_frame.splits option.splits)
qed

lemma log_inv_read:
  assumes "c_pc c = CRead" "log_inv S c"
  shows "log_inv S (client_read S limits c)"
proof -
  have run: "logs_running S c [] []" using assms by (simp add: log_inv_def)
  then have stop: "logs_stopped S c" by (rule running_stopped) simp
  have stopped: "stopping pc \<Longrightarrow> log_inv S (c\<lparr>c_pc := pc\<rparr>)" for pc
    using stop by (simp add: log_inv_def logs_stopped_def passed_def broadcasts_def)
  show ?thesis
    using dispatch_logs [OF run] stopped
    by (auto simp: client_read_def split: sum.splits prod.splits option.splits io_error_kind.splits)
qed

lemma log_inv_upd:
  assumes "log_inv S c" "c_frames c' = c_frames c" "to_upstream c' = to_upstream c" "relayed c' = relayed c"
    and "stopping (c_pc c') \<or> \<not> stopping (c_pc c) \<and> due_write (c_pc c') = due_write (c_pc c)
         \<and> due_call (c_pc c') = due_call (c_pc c)"
  shows "log_inv S c'"
  using assms log_inv_stopped [OF assms(1)]
  by (auto simp: log_inv_def logs_stopped_def logs_running_def passed_def broadcasts_def split: if_splits)

lemma log_inv_reserve:
  assumes "log_inv S c" "\<not> stopping (c_pc c)" "\<not> stopping pc" "due_write pc = due_write (c_pc c)"
    "due_call pc = due_call (c_pc c)"
  shows "log_inv S (client_reserve S limits key ident kind pc c)"
  using assms
  by (auto simp: client_reserve_def split: prod.splits reservation.splits intro!: log_inv_upd [OF assms(1)])

lemma log_inv_step:
  assumes "conn_step S limits e c = Some c'" "log_inv S c"
  shows "log_inv S c'"
proof (cases e)
  case ClientPoll
  then have poll: "client_poll S limits c = Some c'" using assms(1) by simp
  show ?thesis
  proof (cases "c_pc c")
    case CRead
    with poll assms(2) show ?thesis by (auto simp: client_poll_def log_inv_read)
  next
    case (CReserveUpstream key ident frame)
    with poll assms(2) show ?thesis by (auto simp: client_poll_def intro!: log_inv_reserve)
  next
    case (CReserveBroadcast key ident raw)
    with poll assms(2) show ?thesis by (auto simp: client_poll_def intro!: log_inv_reserve)
  next
    case (CCall ident raw key)
    with poll assms(2) show ?thesis
      by (auto simp: client_poll_def log_inv_def logs_running_def passed_def broadcasts_def)
  qed (use poll in \<open>auto simp: client_poll_def channel_send_def split: option.splits if_splits
        intro!: log_inv_upd [OF assms(2)]\<close>)
next
  case (ClientWritten f)
  with assms show ?thesis
    by (auto simp: client_written_def log_inv_def logs_running_def logs_stopped_def passed_def broadcasts_def
        list_all_butlast split: client_pc.splits option.splits)
     (metis append.assoc append_take_drop_id prefixI)
next
  case (RelayReturns r)
  with assms show ?thesis
    by (auto simp: relay_returns_def split: client_pc.splits option.splits intro!: log_inv_upd [OF assms(2)])
qed (use other_events_frame [OF assms(1)] in \<open>auto intro!: log_inv_upd [OF assms(2)]\<close>)

subsection \<open>The replies of the proxy\<close>

definition replies :: "origin \<Rightarrow> conn \<Rightarrow> bytes list" where
  "replies src c = map snd (filter (\<lambda>x. fst x = src) (sent c))"

definition expected_replies :: "serde \<Rightarrow> conn \<Rightarrow> bytes option list" where
  "expected_replies S c = map2 (\<lambda>call outcome. broadcast_response S (fst call) outcome) (relayed c) (outcomes c)"

fun due_reply :: "client_pc \<Rightarrow> bytes list" where
  "due_reply (CRelease b key) = [b]"
| "due_reply (CSend src b) = (if src = RelayReply then [b] else [])"
| "due_reply _ = []"

fun in_relay :: "client_pc \<Rightarrow> (value \<times> rstr) list" where
  "in_relay (CRelay ident raw key) = [(ident, raw)]"
| "in_relay _ = []"

definition reply_inv :: "serde \<Rightarrow> conn \<Rightarrow> bool" where
  "reply_inv S c \<longleftrightarrow>
     (if c_finished (c_pc c)
      then prefix (map Some (replies RelayReply c)) (expected_replies S c)
        \<and> length (expected_replies S c) \<le> length (replies RelayReply c) + 1
        \<and> length (outcomes c) \<le> length (relayed c) \<and> length (relayed c) \<le> length (outcomes c) + 1
        \<and> length (replies ErrorReply c) \<le> 1
      else map Some (replies RelayReply c @ due_reply (c_pc c)) = expected_replies S c
        \<and> (\<exists>calls. relayed c = calls @ in_relay (c_pc c) \<and> length calls = length (outcomes c))
        \<and> replies ErrorReply c = [])"

lemma length_due_reply: "length (due_reply pc) \<le> 1" "length (in_relay pc) \<le> 1"
  by (cases pc; simp)+

lemma reply_inv_stopped:
  assumes "reply_inv S c"
  shows "prefix (map Some (replies RelayReply c)) (expected_replies S c)
        \<and> length (expected_replies S c) \<le> length (replies RelayReply c) + 1
        \<and> length (outcomes c) \<le> length (relayed c) \<and> length (relayed c) \<le> length (outcomes c) + 1
        \<and> length (replies ErrorReply c) \<le> 1"
proof (cases "c_finished (c_pc c)")
  case False
  then have eq: "map Some (replies RelayReply c) @ map Some (due_reply (c_pc c)) = expected_replies S c"
    and "\<exists>calls. relayed c = calls @ in_relay (c_pc c) \<and> length calls = length (outcomes c)"
    and "replies ErrorReply c = []"
    using assms by (simp_all add: reply_inv_def)
  then show ?thesis
    using length_due_reply [of "c_pc c"] prefixI [OF eq [symmetric]] by (auto simp flip: eq)
qed (use assms in \<open>simp add: reply_inv_def\<close>)

lemma reply_inv_upd:
  assumes "reply_inv S c" "relayed c' = relayed c" "outcomes c' = outcomes c"
    and "filter (\<lambda>x. fst x \<noteq> FromUpstream) (sent c') = filter (\<lambda>x. fst x \<noteq> FromUpstream) (sent c)"
    and "c_finished (c_pc c') \<or> \<not> c_finished (c_pc c) \<and> due_reply (c_pc c') = due_reply (c_pc c)
         \<and> in_relay (c_pc c') = in_relay (c_pc c)"
  shows "reply_inv S c'"
proof -
  have "filter (\<lambda>x. fst x = src) (sent d) = filter (\<lambda>x. fst x = src) (filter (\<lambda>x. fst x \<noteq> FromUpstream) (sent d))"
    if "src \<noteq> FromUpstream" for src d
    using that by (auto intro: filter_cong)
  then have same: "replies src c' = replies src c" if "src \<noteq> FromUpstream" for src
    using assms(4) that unfolding replies_def by metis
  have "expected_replies S c' = expected_replies S c"
    using assms(2,3) by (simp add: expected_replies_def)
  then show ?thesis
    using assms(1,2,3,5) reply_inv_stopped [OF assms(1)] same [of RelayReply] same [of ErrorReply]
    by (auto simp: reply_inv_def)
qed

lemma reply_pc_error [simp]: "due_reply (reply_pc ErrorReply r) = []" "in_relay (reply_pc ErrorReply r) = []"
  by (cases r; simp)+

lemma dispatch_replies [simp]: "due_reply (client_dispatch S frame) = []" "in_relay (client_dispatch S frame) = []"
  by (auto simp: client_dispatch_def split: sum.splits client_frame.splits option.splits)

lemma reply_inv_step:
  assumes "conn_step S limits e c = Some c'" "reply_inv S c"
  shows "reply_inv S c'"
proof (cases e)
  case ClientPoll
  then have poll: "client_poll S limits c = Some c'" using assms(1) by simp
  note upd = reply_inv_upd [OF assms(2)]
  show ?thesis
  proof (cases "c_pc c")
    case CRead
    with poll show ?thesis
      by (auto simp: client_poll_def client_read_def split: sum.splits prod.splits option.splits io_error_kind.splits
          intro!: upd)
  next
    case (CReserveUpstream key ident frame)
    with poll show ?thesis
      by (auto simp: client_poll_def client_reserve_def split: prod.splits reservation.splits intro!: upd)
  next
    case (CReserveBroadcast key ident raw)
    with poll show ?thesis
      by (auto simp: client_poll_def client_reserve_def split: prod.splits reservation.splits intro!: upd)
  next
    case (CCall ident raw key)
    with poll assms(2) show ?thesis
      by (auto simp: client_poll_def reply_inv_def expected_replies_def replies_def zip_append1)
  next
    case (CSend src b)
    show ?thesis
    proof (cases "w_finished (w_pc c)")
      case True
      with poll CSend show ?thesis by (auto simp: client_poll_def channel_send_def intro!: upd)
    next
      case False
      have "map Some (replies RelayReply c @ due_reply (c_pc c)) = expected_replies S c"
        using assms(2) CSend by (simp add: reply_inv_def)
      from arg_cong [OF this, of length] poll assms(2) CSend False show ?thesis
        by (auto simp: client_poll_def channel_send_def reply_inv_def expected_replies_def replies_def
            split: if_splits)
    qed
  qed (use poll in \<open>auto simp: client_poll_def intro!: upd\<close>)
next
  case (ClientWritten f)
  with assms show ?thesis
    by (auto simp: client_written_def split: client_pc.splits option.splits intro!: reply_inv_upd [OF assms(2)])
next
  case (RelayReturns r)
  then obtain ident raw key where pc: "c_pc c = CRelay ident raw key"
    using assms(1) by (auto simp: relay_returns_def split: client_pc.splits)
  then obtain calls where calls: "relayed c = calls @ [(ident, raw)]" "length calls = length (outcomes c)"
    and eq: "map Some (replies RelayReply c) = expected_replies S c" and none: "replies ErrorReply c = []"
    using assms(2) by (auto simp: reply_inv_def)
  from eq have eq': "map Some (replies RelayReply c)
      = map2 (\<lambda>call outcome. broadcast_response S (fst call) outcome) calls (outcomes c)"
    using calls by (simp add: expected_replies_def zip_append1)
  have "length (replies RelayReply c) = length (outcomes c)"
    using arg_cong [OF eq', of length] calls(2) by simp
  then show ?thesis
    using assms(1) RelayReturns pc calls none eq'
    by (auto simp: relay_returns_def reply_inv_def expected_replies_def replies_def
        split: option.splits)
qed (use other_events_frame [OF assms(1)] in \<open>auto intro!: reply_inv_upd [OF assms(2)]\<close>)

subsection \<open>Correlation of responses\<close>

definition request_key :: "serde \<Rightarrow> bytes \<Rightarrow> rstr option" where
  "request_key S frame =
     (case classify S frame of Inr (Passthrough (Some ident)) \<Rightarrow> request_id_key S ident | _ \<Rightarrow> None)"

definition response_key :: "serde \<Rightarrow> bytes \<Rightarrow> rstr option" where
  "response_key S frame =
     (case from_slice_envelope S frame of
        None \<Rightarrow> None
      | Some envelope \<Rightarrow>
          (case (env_id envelope, env_method envelope) of
             (Some ident, None) \<Rightarrow> request_id_key S ident
           | _ \<Rightarrow> None))"

definition requests_for :: "serde \<Rightarrow> rstr \<Rightarrow> conn \<Rightarrow> nat" where
  "requests_for S k c = length (filter (\<lambda>f. request_key S f = Some k) (c_frames c))"

definition responses_for :: "serde \<Rightarrow> rstr \<Rightarrow> conn \<Rightarrow> nat" where
  "responses_for S k c = length (filter (\<lambda>f. response_key S f = Some k) (replies FromUpstream c))"

definition waiting :: "rstr \<Rightarrow> conn \<Rightarrow> nat" where
  "waiting k c = (if table_get (pending_table c) k = Some Upstream then 1 else 0)"

fun due_reserve :: "rstr \<Rightarrow> client_pc \<Rightarrow> nat" where
  "due_reserve k (CReserveUpstream key ident frame) = (if key = k then 1 else 0)"
| "due_reserve k _ = 0"

fun due_forward :: "serde \<Rightarrow> rstr \<Rightarrow> upstream_pc \<Rightarrow> nat" where
  "due_forward S k (USend f) = (if response_key S f = Some k then 1 else 0)"
| "due_forward S k _ = 0"

fun lookup_key :: "serde \<Rightarrow> upstream_pc \<Rightarrow> bool" where
  "lookup_key S (ULookup key f) \<longleftrightarrow> response_key S f = Some key"
| "lookup_key S _ \<longleftrightarrow> True"

fun broadcast_key :: "client_pc \<Rightarrow> rstr option" where
  "broadcast_key (CCall ident raw key) = key"
| "broadcast_key (CRelay ident raw key) = key"
| "broadcast_key (CRelease b key) = key"
| "broadcast_key _ = None"

fun own_reply :: "client_pc \<Rightarrow> bool" where
  "own_reply (CSend src b) \<longleftrightarrow> src \<noteq> FromUpstream"
| "own_reply _ \<longleftrightarrow> True"

definition correlation_inv :: "serde \<Rightarrow> rstr \<Rightarrow> conn \<Rightarrow> bool" where
  "correlation_inv S k c \<longleftrightarrow> table_wf (pending_table c) \<and> lookup_key S (u_pc c) \<and> own_reply (c_pc c)
     \<and> responses_for S k c + due_forward S k (u_pc c) + waiting k c + due_reserve k (c_pc c)
           \<le> requests_for S k c"

definition reserved_inv :: "conn \<Rightarrow> bool" where
  "reserved_inv c \<longleftrightarrow> table_wf (pending_table c)
     \<and> pred_option (\<lambda>k. table_get (pending_table c) k = Some BroadcastPending) (broadcast_key (c_pc c))"

lemma due_reply_pc [simp]: "due_reserve k (reply_pc src r) = 0" "broadcast_key (reply_pc src r) = None"
  by (cases r; simp)+

lemma own_reply_error [simp]: "own_reply (reply_pc ErrorReply r)"
  by (cases r) auto

lemma own_reply_dispatch [simp]: "own_reply (client_dispatch S f)"
  by (auto simp: client_dispatch_def split: sum.splits client_frame.splits option.splits)

lemma due_dispatch [simp]: "due_reserve k (client_dispatch S f) = (if request_key S f = Some k then 1 else 0)"
  "broadcast_key (client_dispatch S f) = None"
  by (auto simp: client_dispatch_def request_key_def split: sum.splits client_frame.splits option.splits)

lemma upstream_dispatch_keys [simp]: "lookup_key S (upstream_dispatch S f)"
  by (auto simp: upstream_dispatch_def response_key_def split: option.splits)

lemma upstream_dispatch_forward [simp]: "due_forward S k (upstream_dispatch S f) = 0"
  by (auto simp: upstream_dispatch_def response_key_def split: option.splits)

lemmas key_counts = responses_for_def requests_for_def waiting_def replies_def

lemma other_steps_frame:
  assumes "conn_step S limits e c = Some c'" "e \<noteq> ClientPoll" "e \<noteq> UpstreamPoll"
  shows "pending_table c' = pending_table c \<and> sent c' = sent c \<and> c_frames c' = c_frames c
    \<and> (u_pc c' = u_pc c \<or> u_pc c' = UCancelled)
    \<and> (c_pc c' = c_pc c \<or> due_reserve k (c_pc c') = 0 \<and> own_reply (c_pc c')
        \<and> (broadcast_key (c_pc c') = None \<or> broadcast_key (c_pc c') = broadcast_key (c_pc c)))"
  using assms by (cases e) (auto simp: step_defs split: step_splits)

lemma correlation_upd:
  assumes "correlation_inv S k c" "pending_table c' = pending_table c" "sent c' = sent c" "c_frames c' = c_frames c"
    and "u_pc c' = u_pc c \<or> u_pc c' = UCancelled"
    and "c_pc c' = c_pc c \<or> due_reserve k (c_pc c') = 0 \<and> own_reply (c_pc c')"
  shows "correlation_inv S k c'"
  using assms by (auto simp: correlation_inv_def key_counts)

lemma correlation_reserve:
  assumes "correlation_inv S k c" "due_reserve k pc = 0" "own_reply pc"
    and "kind = Upstream \<longrightarrow> (\<exists>i f. c_pc c = CReserveUpstream key i f)"
  shows "correlation_inv S k (client_reserve S limits key ident kind pc c)"
proof (cases "reserve_request (pending_table c) key kind (limit_pending limits)")
  case (Pair r t)
  have wf: "table_wf (pending_table c)" using assms(1) by (simp add: correlation_inv_def)
  show ?thesis
  proof (cases r)
    case Reserved
    with Pair have t: "t = table_insert key kind (pending_table c)" "table_get (pending_table c) key = None"
      by (simp_all add: reserve_request_cases)
    show ?thesis
      using assms Pair Reserved wf t
      by (cases "kind = Upstream"; cases "key = k")
        (auto simp: client_reserve_def correlation_inv_def table.wf_insert table.get_insert key_counts)
  next
    case Duplicate
    with Pair have "t = pending_table c" by (simp add: reserve_request_cases)
    with assms Pair Duplicate show ?thesis by (simp add: client_reserve_def correlation_inv_def key_counts)
  next
    case LimitExceeded
    with Pair have "t = pending_table c" by (simp add: reserve_request_cases)
    with assms Pair LimitExceeded show ?thesis by (simp add: client_reserve_def correlation_inv_def key_counts)
  qed
qed

lemma correlation_step:
  assumes "conn_step S limits e c = Some c'" "correlation_inv S k c"
  shows "correlation_inv S k c'"
proof (cases e)
  case ClientPoll
  then have poll: "client_poll S limits c = Some c'" using assms(1) by simp
  show ?thesis
  proof (cases "c_pc c")
    case CRead
    with poll assms(2) show ?thesis
      by (cases "wait_for_shutdown (shutdown c)")
        (auto simp: client_poll_def client_read_def correlation_inv_def key_counts
          split: sum.splits prod.splits option.splits io_error_kind.splits)
  next
    case (CReserveUpstream key ident frame)
    with poll assms(2) show ?thesis
      by (auto simp: client_poll_def intro!: correlation_reserve)
  next
    case (CReserveBroadcast key ident raw)
    with poll assms(2) show ?thesis
      by (auto simp: client_poll_def intro!: correlation_reserve)
  next
    case (CSend src b)
    with poll assms(2) show ?thesis
      by (auto simp: client_poll_def channel_send_def correlation_inv_def key_counts split: if_splits)
  next
    case (CRelease b key)
    with poll assms(2) show ?thesis
      by (auto simp: client_poll_def correlation_inv_def key_counts table.wf_remove table.get_remove
          split: option.splits if_splits)
  qed (use poll assms(2) in \<open>auto simp: client_poll_def correlation_inv_def key_counts\<close>)
next
  case UpstreamPoll
  then have poll: "upstream_poll S limits c = Some c'" using assms(1) by simp
  show ?thesis
  proof (cases "u_pc c")
    case URead
    with poll assms(2) show ?thesis
      by (auto simp: upstream_poll_def correlation_inv_def key_counts split: sum.splits prod.splits option.splits)
  next
    case (ULookup key f)
    with poll assms(2) show ?thesis
      by (auto simp: upstream_poll_def correlation_inv_def key_counts table.wf_remove table.get_remove
          split: option.splits pending_request.splits)
  next
    case (USend f)
    with poll assms(2) show ?thesis
      by (auto simp: upstream_poll_def channel_send_def correlation_inv_def key_counts split: if_splits)
  qed (use poll in \<open>auto simp: upstream_poll_def\<close>)
qed (use other_steps_frame [OF assms(1), of k] in \<open>auto intro!: correlation_upd [OF assms(2)]\<close>)

lemma reserved_step:
  assumes "conn_step S limits e c = Some c'" "reserved_inv c"
  shows "reserved_inv c'"
proof (cases e)
  case ClientPoll
  with assms show ?thesis
    by (auto simp: client_poll_def client_read_def client_reserve_def channel_send_def reserved_inv_def
        reserve_request_cases table.wf_insert table.get_insert table.wf_remove table.get_remove
        split: client_pc.splits sum.splits prod.splits option.splits io_error_kind.splits if_splits reservation.splits)
next
  case UpstreamPoll
  with assms show ?thesis
    by (auto simp: upstream_poll_def channel_send_def reserved_inv_def table.wf_remove table.get_remove
        option.pred_set split: upstream_pc.splits sum.splits prod.splits option.splits pending_request.splits if_splits)
qed (use other_steps_frame [OF assms(1), of "[]"] assms(2) in \<open>auto simp: reserved_inv_def\<close>)

subsection \<open>The output to the wallet\<close>

definition is_line :: "bytes \<Rightarrow> bool" where
  "is_line f \<longleftrightarrow> f \<noteq> [] \<and> last f = newline \<and> newline \<notin> set (butlast f)"

fun in_write :: "writer_pc \<Rightarrow> bytes" where
  "in_write (WWrite f) = f"
| "in_write _ = []"

definition output_inv :: "conn \<Rightarrow> bool" where
  "output_inv c \<longleftrightarrow>
     (if w_finished (w_pc c) then prefix (to_client c) (concat (map snd (sent c)))
      else to_client c @ in_write (w_pc c) @ concat (channel c) = concat (map snd (sent c)))"

lemma output_inv_upd:
  assumes "output_inv c" "to_client c' = to_client c" "w_pc c' = w_pc c" "channel c' = channel c" "sent c' = sent c"
  shows "output_inv c'"
  using assms by (simp add: output_inv_def)

lemma output_inv_send:
  assumes "output_inv c" "channel_send src f c = Some (ok, d)"
  shows "output_inv (d\<lparr>c_pc := p\<rparr>)" "output_inv (d\<lparr>u_pc := q\<rparr>)"
  using assms
  by (auto simp: channel_send_def output_inv_def split: if_splits)

lemma output_inv_step:
  assumes "conn_step S limits e c = Some c'" "output_inv c"
  shows "output_inv c'"
proof (cases e)
  case ClientPoll
  with assms show ?thesis
    by (auto simp: client_poll_def client_read_def client_reserve_def output_inv_send
        split: client_pc.splits sum.splits prod.splits option.splits io_error_kind.splits reservation.splits
        intro: output_inv_upd [OF assms(2)])
next
  case UpstreamPoll
  with assms show ?thesis
    by (auto simp: upstream_poll_def output_inv_send
        split: upstream_pc.splits sum.splits prod.splits option.splits pending_request.splits
        intro: output_inv_upd [OF assms(2)])
next
  case WriterPoll
  with assms show ?thesis
    by (auto simp: writer_poll_def output_inv_def split: writer_pc.splits list.splits if_splits)
next
  case (WriterWritten f)
  with assms show ?thesis
    by (auto simp: writer_written_def output_inv_def split: writer_pc.splits option.splits)
      (metis append.assoc append_take_drop_id prefixI)+
next
  case (Cancel t)
  with assms show ?thesis
    by (auto simp: cancel_def output_inv_def split: finished_task.splits if_splits)
      (metis append.assoc prefixI)+
qed (use assms in \<open>auto simp: step_defs split: step_splits intro: output_inv_upd [OF assms(2)]\<close>)

fun lines_c :: "client_pc \<Rightarrow> bytes list" where
  "lines_c (CRelease b key) = [b]"
| "lines_c (CSend src b) = [b]"
| "lines_c _ = []"

fun lines_u :: "upstream_pc \<Rightarrow> bytes list" where
  "lines_u (ULookup key f) = [f]"
| "lines_u (USend f) = [f]"
| "lines_u _ = []"

definition lines_inv :: "conn \<Rightarrow> bool" where
  "lines_inv c \<longleftrightarrow> list_all is_line (lines_c (c_pc c) @ lines_u (u_pc c) @ map snd (sent c))"

lemma encode_response_line: "serde_one_line S \<Longrightarrow> encode_response S v = Some b \<Longrightarrow> is_line b"
  by (auto simp: encode_response_def serde_one_line_def is_line_def)

lemma responses_line:
  assumes "serde_one_line S"
  shows "error_response S x = Some b \<Longrightarrow> is_line b" "invalid_frame_response S = Some b \<Longrightarrow> is_line b"
    "pending_request_limit_response S i = Some b \<Longrightarrow> is_line b" "broadcast_response S i r = Some b \<Longrightarrow> is_line b"
  using encode_response_line [OF assms]
  by (auto simp: response_defs broadcast_response_def Let_def split: sum.splits if_splits)

lemma lines_reply_pc: "(\<And>b. r = Some b \<Longrightarrow> is_line b) \<Longrightarrow> list_all is_line (lines_c (reply_pc src r))"
  by (cases r) auto

lemma lines_dispatch: "serde_one_line S \<Longrightarrow> list_all is_line (lines_c (client_dispatch S f))"
  by (auto simp: client_dispatch_def responses_line intro!: lines_reply_pc
      split: sum.splits client_frame.splits option.splits)

lemma lines_upstream_dispatch: "is_line f \<Longrightarrow> list_all is_line (lines_u (upstream_dispatch S f))"
  by (auto simp: upstream_dispatch_def split: option.splits)

lemma lines_inv_step:
  assumes "serde_one_line S" "usable_limit (limit_frame_bytes limits)" "conn_step S limits e c = Some c'" "lines_inv c"
  shows "lines_inv c'"
proof (cases e)
  case ClientPoll
  with assms(3,4) show ?thesis
    by (auto simp: client_poll_def client_read_def client_reserve_def channel_send_def lines_inv_def
        lines_dispatch [OF assms(1)] responses_line [OF assms(1)] intro!: lines_reply_pc
        split: client_pc.splits sum.splits prod.splits option.splits io_error_kind.splits reservation.splits if_splits)
next
  case (RelayReturns r)
  with assms(3,4) show ?thesis
    by (auto simp: relay_returns_def lines_inv_def responses_line [OF assms(1)] split: client_pc.splits option.splits)
next
  case UpstreamPoll
  have frame: "is_line f" if "read_frame (limit_frame_bytes limits) st = Inr (Some f, st')" for f st st'
    using read_frame_SomeD(1) [OF usable_limit_neq [OF assms(2)] that] by (simp add: frame_ok_def is_line_def)
  from UpstreamPoll assms(3,4) show ?thesis
    by (auto simp: upstream_poll_def channel_send_def lines_inv_def frame intro!: lines_upstream_dispatch
        split: upstream_pc.splits sum.splits prod.splits option.splits pending_request.splits if_splits)
qed (use assms(3,4) in \<open>auto simp: step_defs lines_inv_def split: step_splits\<close>)

subsection \<open>Supervision\<close>

fun supervised :: "supervisor_pc \<Rightarrow> conn \<Rightarrow> bool" where
  "supervised SSelect c \<longleftrightarrow> True"
| "supervised SAwaitBoth c \<longleftrightarrow> w_finished (w_pc c) \<and> u_abort c \<and> c_abort c"
| "supervised SAwaitClient c \<longleftrightarrow> u_finished (u_pc c) \<and> c_abort c"
| "supervised SAwaitUpstream c \<longleftrightarrow> c_finished (c_pc c) \<and> u_abort c"
| "supervised SFlush c \<longleftrightarrow> u_finished (u_pc c) \<and> c_finished (c_pc c)"
| "supervised SAwaitWriter c \<longleftrightarrow> u_finished (u_pc c) \<and> c_finished (c_pc c) \<and> w_abort c"
| "supervised SDone c \<longleftrightarrow> u_finished (u_pc c) \<and> c_finished (c_pc c) \<and> w_finished (w_pc c)"
| "supervised SDropped c \<longleftrightarrow> u_abort c \<and> c_abort c \<and> w_abort c"

lemma finished_stays:
  assumes "conn_step S limits e c = Some c'"
  shows "(c_finished (c_pc c) \<longrightarrow> c_finished (c_pc c')) \<and> (u_finished (u_pc c) \<longrightarrow> u_finished (u_pc c'))
    \<and> (w_finished (w_pc c) \<longrightarrow> w_finished (w_pc c')) \<and> (c_abort c \<longrightarrow> c_abort c')
    \<and> (u_abort c \<longrightarrow> u_abort c') \<and> (w_abort c \<longrightarrow> w_abort c')"
proof (cases e)
  case ClientPoll
  with assms show ?thesis
    by (auto simp: client_poll_def client_read_def client_reserve_def channel_send_def
        split: client_pc.splits sum.splits prod.splits option.splits io_error_kind.splits reservation.splits if_splits)
next
  case UpstreamPoll
  with assms show ?thesis
    by (auto simp: upstream_poll_def channel_send_def
        split: upstream_pc.splits sum.splits prod.splits option.splits pending_request.splits if_splits)
qed (use assms in \<open>auto simp: step_defs split: step_splits\<close>)

lemma supervisor_pc_stays:
  assumes "conn_step S limits e c = Some c'" "\<forall>t. e \<noteq> Select t" "e \<notin> {SupervisorPoll, FlushExpires, DropConnection}"
  shows "s_pc c' = s_pc c"
proof (cases e)
  case ClientPoll
  with assms show ?thesis
    by (auto simp: client_poll_def client_read_def client_reserve_def channel_send_def
        split: client_pc.splits sum.splits prod.splits option.splits io_error_kind.splits reservation.splits if_splits)
next
  case UpstreamPoll
  with assms show ?thesis
    by (auto simp: upstream_poll_def channel_send_def
        split: upstream_pc.splits sum.splits prod.splits option.splits pending_request.splits if_splits)
qed (use assms in \<open>auto simp: step_defs split: step_splits\<close>)

lemma supervised_step:
  assumes "conn_step S limits e c = Some c'" "supervised (s_pc c) c"
  shows "supervised (s_pc c') c'"
proof (cases "(\<exists>t. e = Select t) \<or> e \<in> {SupervisorPoll, FlushExpires, DropConnection}")
  case True
  with assms show ?thesis
    by (auto simp: supervisor_select_def supervisor_poll_def flush_expires_def drop_connection_def
        split: supervisor_pc.splits finished_task.splits if_splits)
next
  case False
  then have "s_pc c' = s_pc c" using supervisor_pc_stays [OF assms(1)] by blast
  with finished_stays [OF assms(1)] assms(2) show ?thesis by (cases "s_pc c") auto
qed

subsection \<open>The table, panics and shutdown\<close>

definition table_inv :: "connection_limits \<Rightarrow> conn \<Rightarrow> bool" where
  "table_inv limits c \<longleftrightarrow> table_wf (pending_table c) \<and> length (pending_table c) \<le> unat (limit_pending limits)"

lemma table_inv_remove:
  "table_wf t \<Longrightarrow> length t \<le> n \<Longrightarrow> table_wf (table_remove k t) \<and> length (table_remove k t) \<le> n"
  using AList.length_delete_le [of k t] table.wf_remove [of t k] by (simp add: table_remove_def)

lemma table_inv_reserve:
  assumes "table_inv limits c"
  shows "table_inv limits (client_reserve S limits key ident kind pc c)"
  using assms table.wf_insert table.len_insert
  by (auto simp: client_reserve_def table_inv_def reserve_request_cases split: prod.splits reservation.splits)

lemma table_inv_step:
  assumes "conn_step S limits e c = Some c'" "table_inv limits c"
  shows "table_inv limits c'"
proof (cases e)
  case ClientPoll
  with assms show ?thesis
    using table_inv_reserve [OF assms(2)]
    by (auto simp: client_poll_def client_read_def channel_send_def
        split: client_pc.splits sum.splits prod.splits option.splits io_error_kind.splits if_splits)
      (auto simp: table_inv_def table_inv_remove)
next
  case UpstreamPoll
  with assms show ?thesis
    by (auto simp: upstream_poll_def channel_send_def table_inv_def table_inv_remove
        split: upstream_pc.splits sum.splits prod.splits option.splits pending_request.splits if_splits)
qed (use other_steps_frame [OF assms(1)] assms(2) in \<open>auto simp: table_inv_def\<close>)

lemma reply_pc_total: "r \<noteq> None \<Longrightarrow> reply_pc src r \<noteq> CPanicked"
  by (cases r) auto

lemma dispatch_total:
  assumes "serde_total S"
  shows "client_dispatch S frame \<noteq> CPanicked"
  using request_id_key_Some [OF assms] classify_Passthrough_id [of S frame] reply_pc_total responses_total(1) [OF assms]
  by (fastforce simp: client_dispatch_def split: sum.splits client_frame.splits option.splits)

lemma no_panic_step:
  assumes "serde_total S" "conn_step S limits e c = Some c'" "c_pc c \<noteq> CPanicked"
  shows "c_pc c' \<noteq> CPanicked"
proof (cases e)
  case ClientPoll
  with assms(2,3) show ?thesis
    using dispatch_total [OF assms(1)] reply_pc_total responses_total [OF assms(1)]
    by (auto simp: client_poll_def client_read_def client_reserve_def channel_send_def
        split: client_pc.splits sum.splits prod.splits option.splits io_error_kind.splits if_splits reservation.splits)
next
  case (RelayReturns r)
  with assms(2,3) show ?thesis
    using broadcast_response_total [OF assms(1)]
    by (auto simp: relay_returns_def simp del: not_None_eq split: client_pc.splits option.splits)
next
  case (ClientWritten f)
  with assms(2,3) show ?thesis
    by (auto simp: client_written_def split: client_pc.splits option.splits)
qed (use other_events_frame [OF assms(2)] assms(3) in auto)

lemma shutdown_step:
  assumes "conn_step S limits e c = Some c'" "wait_for_shutdown (shutdown c)"
  shows "wait_for_shutdown (shutdown c') \<and> c_frames c' = c_frames c"
proof (cases e)
  case ClientPoll
  with assms show ?thesis
    by (auto simp: client_poll_def client_read_def client_reserve_def channel_send_def
        split: client_pc.splits sum.splits prod.splits option.splits io_error_kind.splits if_splits reservation.splits)
next
  case UpstreamPoll
  with assms show ?thesis
    by (auto simp: upstream_poll_def channel_send_def
        split: upstream_pc.splits sum.splits prod.splits option.splits pending_request.splits if_splits)
qed (use assms in \<open>auto simp: step_defs split: step_splits\<close>)

end
