(* ===== verification/Connection_Props.thy ===== *)
theory Connection_Props
  imports Connection_Inv
begin

text \<open>
  The properties of a connection, for every schedule of its tasks and every behaviour of the
  wallet, the upstream and the relay, with a concrete run as their witness.
\<close>

subsection \<open>Facts on runs\<close>

lemma start_invs:
  "read_prefix limits cs (proxy_streams_start cs us)" "log_inv S (proxy_streams_start cs us)"
  "reply_inv S (proxy_streams_start cs us)" "table_inv limits (proxy_streams_start cs us)"
  "correlation_inv S k (proxy_streams_start cs us)" "reserved_inv (proxy_streams_start cs us)"
  "output_inv (proxy_streams_start cs us)" "lines_inv (proxy_streams_start cs us)"
  "supervised (s_pc (proxy_streams_start cs us)) (proxy_streams_start cs us)"
  by (simp_all add: proxy_streams_start_def read_prefix_def log_inv_def logs_running_def passed_def
      broadcasts_def List.map_filter_def reply_inv_def replies_def expected_replies_def table_inv_def
      table.wf_empty correlation_inv_def key_counts table.get_empty reserved_inv_def output_inv_def lines_inv_def)

lemma run_invs:
  assumes "conn_run S limits es (proxy_streams_start cs us) = Some c"
  shows "usable_limit (limit_frame_bytes limits) \<Longrightarrow> read_prefix limits cs c"
    and "log_inv S c" and "reply_inv S c" and "table_inv limits c" and "correlation_inv S k c"
    and "reserved_inv c" and "output_inv c" and "supervised (s_pc c) c"
    and "serde_one_line S \<Longrightarrow> usable_limit (limit_frame_bytes limits) \<Longrightarrow> lines_inv c"
    and "serde_total S \<Longrightarrow> c_pc c \<noteq> CPanicked"
proof -
  note inv_run = conn_run_invariant [OF assms]
  show "read_prefix limits cs c" if "usable_limit (limit_frame_bytes limits)"
    using inv_run [where P = "read_prefix limits cs"] read_prefix_step [OF that] start_invs(1) by blast
  show "log_inv S c" using inv_run [where P = "log_inv S"] log_inv_step start_invs(2) by blast
  show "reply_inv S c" using inv_run [where P = "reply_inv S"] reply_inv_step start_invs(3) by blast
  show "table_inv limits c" using inv_run [where P = "table_inv limits"] table_inv_step start_invs(4) by blast
  show "correlation_inv S k c" using inv_run [where P = "correlation_inv S k"] correlation_step start_invs(5) by blast
  show "reserved_inv c" using inv_run [where P = reserved_inv] reserved_step start_invs(6) by blast
  show "output_inv c" using inv_run [where P = output_inv] output_inv_step start_invs(7) by blast
  show "supervised (s_pc c) c"
    using inv_run [where P = "\<lambda>c. supervised (s_pc c) c"] supervised_step start_invs(9) by blast
  show "lines_inv c" if "serde_one_line S" "usable_limit (limit_frame_bytes limits)"
    using inv_run [where P = lines_inv] lines_inv_step [OF that] start_invs(8) by blast
  have "c_pc (proxy_streams_start cs us) \<noteq> CPanicked" by (simp add: proxy_streams_start_def)
  then show "c_pc c \<noteq> CPanicked" if "serde_total S"
    using inv_run [where P = "\<lambda>c. c_pc c \<noteq> CPanicked"] no_panic_step [OF that] by blast
qed

lemma stopping_step:
  assumes "conn_step S limits e c = Some c'" "stopping (c_pc c)"
  shows "stopping (c_pc c') \<and> c_frames c' = c_frames c \<and> to_upstream c' = to_upstream c \<and> relayed c' = relayed c"
proof (cases "client_event e")
  case True
  with assms show ?thesis
    by (cases e; cases "c_pc c")
      (auto simp: client_poll_def client_written_def relay_returns_def channel_send_def split: if_splits)
next
  case False
  with other_events_frame [OF assms(1)] assms(2) show ?thesis by auto
qed

lemma stopping_run:
  assumes "conn_run S limits es c = Some d" "stopping (c_pc c)"
  shows "c_frames d = c_frames c \<and> to_upstream d = to_upstream c \<and> relayed d = relayed c"
  using conn_run_invariant [OF assms(1), where P = "\<lambda>x. stopping (c_pc x) \<and> c_frames x = c_frames c
      \<and> to_upstream x = to_upstream c \<and> relayed x = relayed c"] stopping_step assms(2)
  by simp

lemma shutdown_run:
  assumes "conn_run S limits es c = Some d" "wait_for_shutdown (shutdown c)"
  shows "c_frames d = c_frames c"
  using conn_run_invariant [OF assms(1), where P = "\<lambda>x. wait_for_shutdown (shutdown x) \<and> c_frames x = c_frames c"]
    shutdown_step assms(2) by simp

subsection \<open>Teardown\<close>

fun teardown_event :: "conn_event \<Rightarrow> bool" where
  "teardown_event (Cancel t) = True"
| "teardown_event SupervisorPoll = True"
| "teardown_event FlushExpires = True"
| "teardown_event _ = False"

definition tears_down :: "serde \<Rightarrow> connection_limits \<Rightarrow> nat \<Rightarrow> conn \<Rightarrow> bool" where
  "tears_down S limits n c \<longleftrightarrow>
     (\<exists>es d. list_all teardown_event es \<and> length es \<le> n \<and> conn_run S limits es c = Some d \<and> s_pc d = SDone)"

lemma tears_down_step:
  "conn_step S limits e c = Some c' \<Longrightarrow> teardown_event e \<Longrightarrow> tears_down S limits n c' \<Longrightarrow> tears_down S limits (Suc n) c"
  unfolding tears_down_def by (metis (no_types, lifting) Suc_le_mono conn_run.simps(2) length_Cons list.pred_inject(2) option.simps(5))

lemma tears_down_mono: "tears_down S limits n c \<Longrightarrow> n \<le> m \<Longrightarrow> tears_down S limits m c"
  unfolding tears_down_def by (meson le_trans)

lemma tears_down_done: "s_pc c = SDone \<Longrightarrow> tears_down S limits 0 c"
  unfolding tears_down_def by (intro exI [of _ "[]"]) auto

lemma tears_down_writer:
  assumes "s_pc c = SAwaitWriter" "w_abort c"
  shows "tears_down S limits 2 c"
proof -
  have fin: "tears_down S limits 1 d" if "s_pc d = SAwaitWriter" "w_finished (w_pc d)" for d
    using tears_down_step [of S limits SupervisorPoll d "d\<lparr>s_pc := SDone\<rparr>" 0] that
    by (simp add: supervisor_poll_def tears_down_done)
  show ?thesis
  proof (cases "w_finished (w_pc c)")
    case True
    with fin [OF assms(1)] show ?thesis by (auto intro: tears_down_mono)
  next
    case False
    with fin [of "c\<lparr>w_pc := WCancelled\<rparr>"] assms show ?thesis
      using tears_down_step [of S limits "Cancel WriterTask" c "c\<lparr>w_pc := WCancelled\<rparr>" 1]
      by (simp add: cancel_def numeral_2_eq_2)
  qed
qed

lemma tears_down_flush:
  assumes "s_pc c = SFlush"
  shows "tears_down S limits 3 c"
proof (cases "w_finished (w_pc c)")
  case True
  then have "tears_down S limits 1 c"
    using tears_down_step [of S limits SupervisorPoll c "c\<lparr>s_pc := SDone\<rparr>" 0] assms
    by (simp add: supervisor_poll_def tears_down_done)
  then show ?thesis by (rule tears_down_mono) simp
next
  case False
  then show ?thesis
    using tears_down_step [of S limits FlushExpires c "c\<lparr>w_abort := True, s_pc := SAwaitWriter\<rparr>" 2] assms
      tears_down_writer [of "c\<lparr>w_abort := True, s_pc := SAwaitWriter\<rparr>" S limits]
    by (simp add: flush_expires_def numeral_3_eq_3 numeral_2_eq_2)
qed

text \<open>Cancelling a task that was aborted finishes it and changes nothing else of the supervision.\<close>

lemma tears_down_cancel_client:
  assumes "c_abort c" "\<And>d. s_pc d = s_pc c \<Longrightarrow> c_finished (c_pc d) \<Longrightarrow> u_pc d = u_pc c \<Longrightarrow> u_abort d = u_abort c
    \<Longrightarrow> tears_down S limits n d"
  shows "tears_down S limits (Suc n) c"
proof (cases "c_finished (c_pc c)")
  case True
  then show ?thesis using assms(2) [of c] by (auto intro: tears_down_mono)
next
  case False
  then show ?thesis
    using assms(2) [of "c\<lparr>c_pc := CCancelled\<rparr>"] assms(1)
      tears_down_step [of S limits "Cancel ClientTask" c "c\<lparr>c_pc := CCancelled\<rparr>" n]
    by (simp add: cancel_def)
qed

lemma tears_down_cancel_upstream:
  assumes "u_abort c" "\<And>d. s_pc d = s_pc c \<Longrightarrow> u_finished (u_pc d) \<Longrightarrow> c_pc d = c_pc c \<Longrightarrow> c_abort d = c_abort c
    \<Longrightarrow> tears_down S limits n d"
  shows "tears_down S limits (Suc n) c"
proof (cases "u_finished (u_pc c)")
  case True
  then show ?thesis using assms(2) [of c] by (auto intro: tears_down_mono)
next
  case False
  then show ?thesis
    using assms(2) [of "c\<lparr>u_pc := UCancelled\<rparr>"] assms(1)
      tears_down_step [of S limits "Cancel UpstreamTask" c "c\<lparr>u_pc := UCancelled\<rparr>" n]
    by (simp add: cancel_def)
qed

lemma tears_down_poll:
  assumes "supervisor_poll c = Some c'" "tears_down S limits n c'"
  shows "tears_down S limits (Suc n) c"
  using tears_down_step [of S limits SupervisorPoll c c' n] assms by simp

lemma supervised_tears_down:
  assumes "supervised (s_pc c) c" "s_pc c \<noteq> SSelect" "s_pc c \<noteq> SDropped"
  shows "tears_down S limits 5 c"
proof (cases "s_pc c")
  case SAwaitBoth
  have poll: "tears_down S limits (Suc 0) d"
    if "s_pc d = SAwaitBoth" "u_finished (u_pc d)" "c_finished (c_pc d)" for d
    using tears_down_poll [of d "d\<lparr>s_pc := SDone\<rparr>" S limits 0] that
    by (simp add: supervisor_poll_def tears_down_done)
  have upstream: "tears_down S limits (Suc (Suc 0)) d"
    if "s_pc d = SAwaitBoth" "u_abort d" "c_finished (c_pc d)" for d
    by (rule tears_down_cancel_upstream [OF that(2)]) (use that in \<open>auto intro!: poll\<close>)
  have "tears_down S limits (Suc (Suc (Suc 0))) c"
    by (rule tears_down_cancel_client) (use assms(1) SAwaitBoth in \<open>auto intro!: upstream\<close>)
  then show ?thesis by (rule tears_down_mono) simp
next
  case SAwaitClient
  have flush: "tears_down S limits 4 d" if "s_pc d = SAwaitClient" "c_finished (c_pc d)" for d
    using tears_down_poll [of d "d\<lparr>s_pc := SFlush\<rparr>" S limits 3] that
    by (simp add: supervisor_poll_def tears_down_flush)
  have "tears_down S limits (Suc 4) c"
    by (rule tears_down_cancel_client) (use assms(1) SAwaitClient in \<open>auto intro!: flush\<close>)
  then show ?thesis by simp
next
  case SAwaitUpstream
  have flush: "tears_down S limits 4 d" if "s_pc d = SAwaitUpstream" "u_finished (u_pc d)" for d
    using tears_down_poll [of d "d\<lparr>s_pc := SFlush\<rparr>" S limits 3] that
    by (simp add: supervisor_poll_def tears_down_flush)
  have "tears_down S limits (Suc 4) c"
    by (rule tears_down_cancel_upstream) (use assms(1) SAwaitUpstream in \<open>auto intro!: flush\<close>)
  then show ?thesis by simp
next
  case SFlush
  then have "tears_down S limits 3 c" by (rule tears_down_flush)
  then show ?thesis by (rule tears_down_mono) simp
next
  case SAwaitWriter
  then have "tears_down S limits 2 c" using assms(1) by (intro tears_down_writer) auto
  then show ?thesis by (rule tears_down_mono) simp
next
  case SDone
  then have "tears_down S limits 0 c" by (rule tears_down_done)
  then show ?thesis by (rule tears_down_mono) simp
qed (use assms in auto)

lemma in_map_filter: "y \<in> set (List.map_filter f xs) \<longleftrightarrow> (\<exists>x \<in> set xs. f x = Some y)"
  by (induction xs) (auto split: option.splits)

lemma broadcast_of_hex: "broadcast_of S f = Some (ident, raw) \<Longrightarrow> hex_transaction raw"
  by (auto simp: broadcast_of_def split: sum.splits client_frame.splits dest!: classify_Broadcast [THEN iffD1])

subsection \<open>A concrete connection\<close>

text \<open>
  The wallet sends a query with identifier 1 and a broadcast with identifier 2, and a frame that
  is no request; the upstream answers 1, and answers 2 although it never saw it.
\<close>

definition q_frame :: bytes where "q_frame = ''q'' @ [newline]"
definition b_frame :: bytes where "b_frame = ''b'' @ [newline]"
definition x_frame :: bytes where "x_frame = ''x'' @ [newline]"
definition r1_frame :: bytes where "r1_frame = ''r1'' @ [newline]"
definition r2_frame :: bytes where "r2_frame = ''r2'' @ [newline]"

definition num :: "int \<Rightarrow> value" where "num i = Number (Integer i)"

definition demo_serde :: serde where
  "demo_serde = printer_serde
     [(q_frame, \<lparr>req_id = Some (num 1), req_method = ''server.ping'', req_params = None\<rparr>),
      (b_frame, \<lparr>req_id = Some (num 2), req_method = BROADCAST_METHOD, req_params = Some (Array [String ''00ff''])\<rparr>)]
     [(r1_frame, \<lparr>env_id = Some (num 1), env_method = None\<rparr>),
      (r2_frame, \<lparr>env_id = Some (num 2), env_method = None\<rparr>)] []"

definition demo_limits :: connection_limits where
  "demo_limits = \<lparr>limit_frame_bytes = 1024, limit_pending = 4\<rparr>"

definition demo_client :: byte_stream where
  "demo_client = \<lparr>incoming = q_frame @ b_frame @ x_frame, finish = Eof\<rparr>"

definition demo_upstream :: byte_stream where
  "demo_upstream = \<lparr>incoming = r2_frame @ r1_frame, finish = Eof\<rparr>"

text \<open>Up to the moment the broadcast is in the relay and the upstream has answered its identifier.\<close>

definition demo_events1 :: "conn_event list" where
  "demo_events1 = [ClientPoll, ClientPoll, ClientWritten None, ClientPoll, ClientPoll, ClientPoll, UpstreamPoll]"

definition demo_events2 :: "conn_event list" where
  "demo_events2 = [UpstreamPoll, RelayReturns (Inr (replicate 64 CHR ''a'')), ClientPoll, ClientPoll,
     UpstreamPoll, UpstreamPoll, UpstreamPoll, WriterPoll, WriterWritten None, WriterPoll, WriterWritten (Some (1, OtherKind))]"

definition demo_events3 :: "conn_event list" where
  "demo_events3 = [ClientPoll, ClientPoll, Select WriterTask]"

definition demo_start :: conn where
  "demo_start = proxy_streams_start demo_client demo_upstream"

definition run_or_start :: "conn_event list \<Rightarrow> conn" where
  "run_or_start es = (case conn_run demo_serde demo_limits es demo_start of Some c \<Rightarrow> c | None \<Rightarrow> demo_start)"

definition demo1 :: conn where "demo1 = run_or_start demo_events1"
definition demo2 :: conn where "demo2 = run_or_start (demo_events1 @ demo_events2)"
definition demo3 :: conn where "demo3 = run_or_start (demo_events1 @ demo_events2 @ demo_events3)"

lemma run_or_start_run:
  "conn_run demo_serde demo_limits es demo_start \<noteq> None \<Longrightarrow>
     conn_run demo_serde demo_limits es (proxy_streams_start demo_client demo_upstream) = Some (run_or_start es)"
  by (auto simp: run_or_start_def demo_start_def)

lemma demo1_run: "conn_run demo_serde demo_limits demo_events1 (proxy_streams_start demo_client demo_upstream) = Some demo1"
  unfolding demo1_def by (rule run_or_start_run) code_simp

lemma demo2_run:
  "conn_run demo_serde demo_limits (demo_events1 @ demo_events2) (proxy_streams_start demo_client demo_upstream) = Some demo2"
  unfolding demo2_def by (rule run_or_start_run) code_simp

lemma demo3_run:
  "conn_run demo_serde demo_limits (demo_events1 @ demo_events2 @ demo_events3) (proxy_streams_start demo_client demo_upstream) = Some demo3"
  unfolding demo3_def by (rule run_or_start_run) code_simp

lemma demo_usable: "usable_limit (limit_frame_bytes demo_limits)"
  by (simp add: usable_limit_def demo_limits_def)

lemma demo_serde_ok: "serde_total demo_serde" "serde_one_line demo_serde"
  by (simp_all add: demo_serde_def printer_serde_ok)

subsection \<open>Properties of a connection\<close>

text \<open>
  C1: nothing but passthrough requests reaches the query upstream, unchanged and in order. At
  every moment of every schedule, the frames read are a prefix of the wallet's bytes, and the
  bytes written to the upstream are a prefix of the concatenation of those frames that are
  passthrough requests, and all of them whenever the client task is back at its read. No byte of
  a broadcast request is ever written there, whatever the relay answers.
\<close>

theorem upstream_gets_only_passthrough:
  assumes "conn_run S limits es (proxy_streams_start cs us) = Some c"
    and "usable_limit (limit_frame_bytes limits)"
  shows "incoming cs = concat (c_frames c) @ incoming (client_in c)
    \<and> list_all (frame_ok (limit_frame_bytes limits)) (c_frames c)
    \<and> prefix (to_upstream c) (concat (filter (is_passthrough S) (c_frames c)))
    \<and> (c_pc c = CRead \<longrightarrow> to_upstream c = concat (filter (is_passthrough S) (c_frames c)))"
  using run_invs(1) [OF assms] run_invs(2) [OF assms(1)] log_inv_stopped [OF run_invs(2) [OF assms(1)]]
  by (auto simp: read_prefix_def log_inv_def logs_running_def logs_stopped_def passed_def)

theorem upstream_gets_only_passthrough_witness:
  "to_upstream demo2 = q_frame \<and> c_frames demo2 = [q_frame, b_frame]
   \<and> prefix (to_upstream demo2) (concat (filter (is_passthrough demo_serde) (c_frames demo2)))"
proof -
  have "to_upstream demo2 = q_frame" "c_frames demo2 = [q_frame, b_frame]" by code_simp+
  then show ?thesis using upstream_gets_only_passthrough [OF demo2_run demo_usable] by blast
qed

text \<open>
  C2: the relay gets each broadcast request exactly once, in order, and nothing else. The calls
  of the relay are the broadcast requests among the frames read, except that the last one may
  not have been submitted (yet, or because its reservation was refused); at the read of the
  client task they are all of them. Every transaction submitted is a non-empty even number of
  hexadecimal digits.
\<close>

theorem relay_gets_each_broadcast_once:
  assumes "conn_run S limits es (proxy_streams_start cs us) = Some c"
  shows "(relayed c = List.map_filter (broadcast_of S) (c_frames c)
      \<or> (\<exists>x. relayed c @ [x] = List.map_filter (broadcast_of S) (c_frames c)))
    \<and> (c_pc c = CRead \<longrightarrow> relayed c = List.map_filter (broadcast_of S) (c_frames c))
    \<and> (\<forall>(ident, raw) \<in> set (relayed c). hex_transaction raw)"
proof -
  have "hex_transaction raw" if "(ident, raw) \<in> set (List.map_filter (broadcast_of S) fs)" for ident raw fs
    using that by (auto simp: in_map_filter dest: broadcast_of_hex)
  then have "\<forall>(ident, raw) \<in> set (broadcasts S c). hex_transaction raw"
    unfolding broadcasts_def by blast
  moreover have "set (relayed c) \<subseteq> set (broadcasts S c)"
    using log_inv_stopped [OF run_invs(2) [OF assms]]
    by (auto simp: logs_stopped_def) (metis in_set_conv_decomp append.assoc append_Cons)
  ultimately show ?thesis
    using run_invs(2) [OF assms] log_inv_stopped [OF run_invs(2) [OF assms]]
    by (auto simp: log_inv_def logs_running_def logs_stopped_def broadcasts_def)
qed

theorem relay_gets_each_broadcast_once_witness:
  "relayed demo2 = List.map_filter (broadcast_of demo_serde) (c_frames demo2)
   \<and> relayed demo2 = [(num 2, ''00ff'')]"
proof -
  have "c_pc demo2 = CRead" "relayed demo2 = [(num 2, ''00ff'')]" by code_simp+
  with relay_gets_each_broadcast_once [OF demo2_run] show ?thesis by simp
qed

text \<open>
  C3: every submission is answered, with the response for its own identifier and outcome, in
  order. The replies put in the wallet's channel for broadcasts are, one for one, the responses
  made of the identifiers of the relay calls and of the outcomes of these calls; at most the
  last outcome has not been answered (yet, or because the wallet is gone), and at most the last
  call has no outcome. At most one error response is sent, and only at the end.
\<close>

theorem each_broadcast_is_answered:
  assumes "conn_run S limits es (proxy_streams_start cs us) = Some c"
  shows "prefix (map Some (replies RelayReply c))
      (map2 (\<lambda>call outcome. broadcast_response S (fst call) outcome) (relayed c) (outcomes c))
    \<and> length (outcomes c) \<le> length (relayed c) \<and> length (relayed c) \<le> length (outcomes c) + 1
    \<and> length (outcomes c) \<le> length (replies RelayReply c) + 1
    \<and> (c_pc c = CRead \<longrightarrow> length (replies RelayReply c) = length (relayed c))
    \<and> length (replies ErrorReply c) \<le> 1 \<and> (replies ErrorReply c \<noteq> [] \<longrightarrow> c_finished (c_pc c))"
proof -
  have inv: "reply_inv S c" by (rule run_invs(3) [OF assms])
  have "length (replies RelayReply c) = length (relayed c)" if "c_pc c = CRead"
  proof -
    have "map Some (replies RelayReply c) = expected_replies S c" "length (relayed c) = length (outcomes c)"
      using inv that by (auto simp: reply_inv_def)
    from arg_cong [OF this(1), of length] this(2) show ?thesis by (simp add: expected_replies_def)
  qed
  moreover have "replies ErrorReply c \<noteq> [] \<longrightarrow> c_finished (c_pc c)"
    using inv by (auto simp: reply_inv_def split: if_splits)
  ultimately show ?thesis
    using reply_inv_stopped [OF inv] by (auto simp: expected_replies_def)
qed

theorem each_broadcast_is_answered_witness:
  "map Some (replies RelayReply demo2) = [success_response demo_serde (num 2) (replicate 64 CHR ''a'')]
   \<and> prefix (map Some (replies RelayReply demo2))
      (map2 (\<lambda>call outcome. broadcast_response demo_serde (fst call) outcome) (relayed demo2) (outcomes demo2))"
proof -
  have "map Some (replies RelayReply demo2) = [success_response demo_serde (num 2) (replicate 64 CHR ''a'')]"
    by code_simp
  then show ?thesis using each_broadcast_is_answered [OF demo2_run] by blast
qed

text \<open>
  C4: responses are correlated exactly. For every identifier, the responses of the upstream that
  were forwarded to the wallet, together with the one still awaited, are at most the passthrough
  requests the wallet made with this identifier: an unsolicited, repeated or late response never
  reaches the wallet.
\<close>

theorem responses_match_requests:
  assumes "conn_run S limits es (proxy_streams_start cs us) = Some c"
  shows "responses_for S k c + waiting k c \<le> requests_for S k c"
  using run_invs(5) [OF assms, of k] by (simp add: correlation_inv_def)

theorem responses_match_requests_witness:
  "responses_for demo_serde ''1'' demo2 = 1 \<and> responses_for demo_serde ''2'' demo2 = 0
   \<and> responses_for demo_serde ''1'' demo2 + waiting ''1'' demo2 \<le> requests_for demo_serde ''1'' demo2"
proof -
  have "responses_for demo_serde ''1'' demo2 = 1" "responses_for demo_serde ''2'' demo2 = 0" by code_simp+
  then show ?thesis using responses_match_requests [OF demo2_run] by blast
qed

text \<open>
  C11: the upstream cannot answer a private broadcast. While a broadcast is in the relay, its
  identifier is reserved for the proxy, and a response of the upstream with that identifier is
  dropped: the upstream task goes back to its read and nothing else changes.
\<close>

theorem upstream_cannot_answer_broadcast:
  assumes "conn_run S limits es (proxy_streams_start cs us) = Some c"
    and "c_pc c = CRelay ident raw (Some k)" "u_pc c = ULookup k frame"
  shows "table_get (pending_table c) k = Some BroadcastPending
    \<and> upstream_poll S limits c = Some (c\<lparr>u_pc := URead\<rparr>)"
  using run_invs(6) [OF assms(1)] assms(2,3) by (simp add: reserved_inv_def upstream_poll_def)

theorem upstream_cannot_answer_broadcast_witness:
  "upstream_poll demo_serde demo_limits demo1 = Some (demo1\<lparr>u_pc := URead\<rparr>)"
proof -
  have "c_pc demo1 = CRelay (num 2) ''00ff'' (Some ''2'')" "u_pc demo1 = ULookup ''2'' r2_frame" by code_simp+
  then show ?thesis using upstream_cannot_answer_broadcast [OF demo1_run] by blast
qed

text \<open>
  The table of a connection stays within its limit. In every schedule the pending requests
  are at most the configured number, with distinct identifiers.
\<close>

lemma pending_requests_bounded:
  assumes "conn_run S limits es (proxy_streams_start cs us) = Some c"
  shows "length (pending_table c) \<le> unat (limit_pending limits) \<and> distinct (map fst (pending_table c))"
  using run_invs(4) [OF assms] by (simp add: table_inv_def table_wf_def)

text \<open>
  No input makes a task panic. As long as serialisation succeeds, none of the two \<open>expect\<close>
  calls on the path of a wallet frame fails, whatever the wallet, the upstream and the relay do.
\<close>

lemma client_task_never_panics:
  assumes "conn_run S limits es (proxy_streams_start cs us) = Some c" "serde_total S"
  shows "c_pc c \<noteq> CPanicked"
  using run_invs(10) [OF assms] .

text \<open>
  C28: shutdown stops the intake. From the moment the shutdown signal is up, no further frame of
  the wallet is read in any schedule; a call that is in the relay may still return.
\<close>

theorem shutdown_stops_intake:
  assumes "wait_for_shutdown (shutdown c)" "conn_run S limits es c = Some d"
  shows "c_frames d = c_frames c"
  using shutdown_run [OF assms(2,1)] .

theorem shutdown_stops_intake_witness:
  "conn_run demo_serde demo_limits [RelayReturns (Inl relay_error_failed), ClientPoll, ClientPoll, ClientPoll]
     (demo1\<lparr>shutdown := \<lparr>requested = True, sender_alive = True\<rparr>\<rparr>) \<noteq> None
   \<and> c_frames (demo1\<lparr>shutdown := \<lparr>requested = True, sender_alive = True\<rparr>\<rparr>) = [q_frame, b_frame]"
proof -
  let ?c = "demo1\<lparr>shutdown := \<lparr>requested = True, sender_alive = True\<rparr>\<rparr>"
  let ?es = "[RelayReturns (Inl relay_error_failed), ClientPoll, ClientPoll, ClientPoll]"
  obtain d where d: "conn_run demo_serde demo_limits ?es ?c = Some d"
  proof -
    have "conn_run demo_serde demo_limits ?es ?c \<noteq> None" by code_simp
    then show thesis using that by blast
  qed
  have "c_frames d = c_frames ?c"
    by (rule shutdown_stops_intake [OF _ d]) (simp add: wait_for_shutdown_def)
  moreover have "map_option c_frames (conn_run demo_serde demo_limits ?es ?c) = Some [q_frame, b_frame]" by code_simp
  ultimately show ?thesis using d by simp
qed

text \<open>
  C27: a bad frame ends the connection's intake for good. All frames read before the last are
  requests; after a frame that is not, no schedule reads another frame, writes another byte to
  the upstream or calls the relay again.
\<close>

theorem bad_frame_closes:
  assumes "conn_run S limits es (proxy_streams_start cs us) = Some c"
    and "c_frames c \<noteq> []" "\<not> accepted S (last (c_frames c))" "conn_run S limits es' c = Some d"
  shows "list_all (accepted S) (butlast (c_frames c))
    \<and> c_frames d = c_frames c \<and> to_upstream d = to_upstream c \<and> relayed d = relayed c"
proof -
  have inv: "log_inv S c" by (rule run_invs(2) [OF assms(1)])
  have "stopping (c_pc c)"
  proof (rule ccontr)
    assume "\<not> stopping (c_pc c)"
    with inv have "list_all (accepted S) (c_frames c)" by (simp add: log_inv_def logs_running_def)
    with assms(2,3) show False by (simp add: list_all_iff)
  qed
  from stopping_run [OF assms(4) this] log_inv_stopped [OF inv] show ?thesis
    by (simp add: logs_stopped_def)
qed

theorem bad_frame_closes_witness:
  "list_all (accepted demo_serde) [q_frame, b_frame] \<and> \<not> accepted demo_serde x_frame"
proof -
  have frames: "c_frames demo3 = [q_frame, b_frame, x_frame]" and bad: "\<not> accepted demo_serde x_frame" by code_simp+
  have "conn_run demo_serde demo_limits [] demo3 = Some demo3" by simp
  from bad_frame_closes [OF demo3_run _ _ this] frames bad show ?thesis by simp
qed

text \<open>
  C29: the wallet reads whole lines in the order they were sent. The bytes written to the wallet
  are a prefix of the concatenation of the frames put in the channel, all of them when the
  writer is back at its receive on an empty channel, and each of these frames is one line, ended
  by its only newline: responses of the proxy and of the upstream are never torn or interleaved.
\<close>

theorem wallet_output_is_lines:
  assumes "conn_run S limits es (proxy_streams_start cs us) = Some c"
    and "serde_one_line S" "usable_limit (limit_frame_bytes limits)"
  shows "prefix (to_client c) (concat (map snd (sent c)))
    \<and> (w_pc c = WRecv \<and> channel c = [] \<longrightarrow> to_client c = concat (map snd (sent c)))
    \<and> list_all is_line (map snd (sent c))"
proof -
  have out: "output_inv c" by (rule run_invs(7) [OF assms(1)])
  have "prefix (to_client c) (concat (map snd (sent c)))"
    using out by (cases "w_finished (w_pc c)") (auto simp: output_inv_def intro: prefixI [OF sym])
  moreover have "w_pc c = WRecv \<and> channel c = [] \<longrightarrow> to_client c = concat (map snd (sent c))"
    using out by (auto simp: output_inv_def)
  moreover have "list_all is_line (map snd (sent c))"
    using run_invs(9) [OF assms] by (simp add: lines_inv_def)
  ultimately show ?thesis by blast
qed

theorem wallet_output_is_lines_witness:
  "prefix (to_client demo2) (concat (map snd (sent demo2))) \<and> map fst (sent demo2) = [RelayReply, FromUpstream]"
proof -
  have "map fst (sent demo2) = [RelayReply, FromUpstream]" by code_simp
  then show ?thesis using wallet_output_is_lines [OF demo2_run demo_serde_ok(2) demo_usable] by blast
qed

text \<open>
  A connection ends without leaving a task behind. When the supervisor returns, all three
  tasks are finished; and once one task has finished and the supervisor has seen it, the
  connection can always be brought to its end by at most five steps that need nothing of the
  wallet, the upstream or the relay: cancellations of aborted tasks, the grace period, and the
  supervisor itself.
\<close>

lemma connection_teardown:
  assumes "conn_run S limits es (proxy_streams_start cs us) = Some c"
  shows "(s_pc c = SDone \<longrightarrow> c_finished (c_pc c) \<and> u_finished (u_pc c) \<and> w_finished (w_pc c))
    \<and> (s_pc c \<noteq> SSelect \<and> s_pc c \<noteq> SDropped \<longrightarrow>
        (\<exists>es' d. list_all teardown_event es' \<and> length es' \<le> 5
           \<and> conn_run S limits es' c = Some d \<and> s_pc d = SDone))"
  using run_invs(8) [OF assms] supervised_tears_down [OF run_invs(8) [OF assms], of S limits]
  by (auto simp: tears_down_def)

end
