(* ===== verification/Connection_Term.thy ===== *)
theory Connection_Term
  imports Connection_Props
begin

text \<open>
  Termination and progress of a connection: a measure that every event decreases, and the proof
  that a state without an ordinary event is one in which every task is finished.
\<close>

subsection \<open>A measure\<close>

fun c_rank :: "client_pc \<Rightarrow> nat" where
  "c_rank CRead = 4"
| "c_rank (CReserveUpstream key ident frame) = 6"
| "c_rank (CReserveBroadcast key ident raw) = 11"
| "c_rank (CWrite frame) = 5"
| "c_rank (CCall ident raw key) = 10"
| "c_rank (CRelay ident raw key) = 9"
| "c_rank (CRelease b key) = 8"
| "c_rank (CSend src b) = (if src = RelayReply then 7 else 3)"
| "c_rank _ = 0"

fun u_rank :: "upstream_pc \<Rightarrow> nat" where
  "u_rank URead = 1"
| "u_rank (ULookup key frame) = 5"
| "u_rank (USend frame) = 4"
| "u_rank _ = 0"

fun w_rank :: "writer_pc \<Rightarrow> nat" where
  "w_rank WRecv = 2"
| "w_rank (WWrite frame) = 3"
| "w_rank WClose = 1"
| "w_rank _ = 0"

fun s_rank :: "supervisor_pc \<Rightarrow> nat" where
  "s_rank SSelect = 4"
| "s_rank SAwaitBoth = 3"
| "s_rank SAwaitClient = 3"
| "s_rank SAwaitUpstream = 3"
| "s_rank SFlush = 2"
| "s_rank SAwaitWriter = 1"
| "s_rank _ = 0"

definition work :: "conn \<Rightarrow> nat" where
  "work c = 8 * length (incoming (client_in c)) + 5 * length (incoming (upstream_in c)) + 2 * length (channel c)
     + c_rank (c_pc c) + u_rank (u_pc c) + w_rank (w_pc c) + s_rank (s_pc c)
     + (if wait_for_shutdown (shutdown c) then 0 else 1)"

lemma c_rank_reply: "c_rank (reply_pc ErrorReply r) \<le> 3"
  by (cases r) auto

lemma c_rank_dispatch: "c_rank (client_dispatch S f) \<le> 11"
  by (auto simp: client_dispatch_def split: sum.splits client_frame.splits option.splits
      intro: order_trans [OF c_rank_reply])

lemma u_rank_dispatch: "u_rank (upstream_dispatch S f) \<le> 5"
  by (auto simp: upstream_dispatch_def split: option.splits)

lemma c_rank_zero: "c_rank p = 0 \<longleftrightarrow> c_finished p"
  by (cases p) auto

lemma u_rank_zero: "u_rank p = 0 \<longleftrightarrow> u_finished p"
  by (cases p) auto

lemma w_rank_zero: "w_rank p = 0 \<longleftrightarrow> w_finished p"
  by (cases p) auto

lemma work_client_read:
  assumes "c_pc c = CRead"
  shows "work (client_read S limits c) < work c"
proof (cases "wait_for_shutdown (shutdown c)")
  case True
  with assms show ?thesis by (simp add: client_read_def work_def)
next
  case False
  show ?thesis
  proof (cases "read_frame (limit_frame_bytes limits) (client_in c)")
    case (Inl k)
    with False assms c_rank_reply [of "invalid_frame_response S"] show ?thesis
      by (cases k) (simp_all add: client_read_def work_def)
  next
    case (Inr r)
    obtain f rest where r: "r = (f, rest)" by fastforce
    show ?thesis
    proof (cases f)
      case None
      with False assms Inr r show ?thesis by (simp add: client_read_def work_def)
    next
      case (Some frame)
      then have "length (incoming rest) < length (incoming (client_in c))"
        using Inr r read_frame_shorter by blast
      with False assms Inr r Some c_rank_dispatch [of S frame] show ?thesis
        by (simp add: client_read_def work_def)
    qed
  qed
qed

lemma work_reserve:
  assumes "c_rank pc < c_rank (c_pc c)" "3 < c_rank (c_pc c)"
  shows "work (client_reserve S limits key ident kind pc c) < work c"
  using assms c_rank_reply [of "invalid_frame_response S"] c_rank_reply [of "pending_request_limit_response S ident"]
  by (auto simp: client_reserve_def work_def split: prod.splits reservation.splits)

lemma work_upstream:
  assumes "upstream_poll S limits c = Some c'"
  shows "work c' < work c"
proof (cases "u_pc c")
  case URead
  show ?thesis
  proof (cases "\<exists>f rest. read_frame (limit_frame_bytes limits) (upstream_in c) = Inr (Some f, rest)")
    case True
    then obtain f rest where read: "read_frame (limit_frame_bytes limits) (upstream_in c) = Inr (Some f, rest)" by blast
    from URead assms read read_frame_shorter [OF read] u_rank_dispatch [of S f] show ?thesis
      by (auto simp: upstream_poll_def work_def)
  next
    case False
    with URead assms show ?thesis
      by (auto simp: upstream_poll_def work_def split: sum.splits prod.splits option.splits)
  qed
qed (use assms in \<open>auto simp: upstream_poll_def channel_send_def work_def
      split: option.splits pending_request.splits if_splits\<close>)

lemma work_decreases:
  assumes "conn_step S limits e c = Some c'"
  shows "work c' < work c"
proof (cases e)
  case ClientPoll
  then have poll: "client_poll S limits c = Some c'" using assms by simp
  show ?thesis
  proof (cases "c_pc c")
    case CRead
    with poll work_client_read show ?thesis by (auto simp: client_poll_def)
  next
    case (CReserveUpstream key ident frame)
    with poll show ?thesis by (auto simp: client_poll_def intro!: work_reserve)
  next
    case (CReserveBroadcast key ident raw)
    with poll show ?thesis by (auto simp: client_poll_def intro!: work_reserve)
  qed (use poll in \<open>auto simp: client_poll_def channel_send_def work_def split: option.splits if_splits\<close>)
next
  case UpstreamPoll
  with assms work_upstream show ?thesis by simp
next
  case DropConnection
  with assms show ?thesis
    by (cases "s_pc c") (auto simp: drop_connection_def work_def)
next
  case (Cancel t)
  with assms show ?thesis
    by (cases t) (auto simp: cancel_def work_def split: if_splits
        simp flip: c_rank_zero u_rank_zero w_rank_zero)
qed (use assms in \<open>auto simp: step_defs work_def split: step_splits\<close>)

lemma run_length: "conn_run S limits es c = Some c' \<Longrightarrow> length es + work c' \<le> work c"
proof (induction es arbitrary: c)
  case (Cons e es)
  then obtain d where step: "conn_step S limits e c = Some d" and "conn_run S limits es d = Some c'"
    by (auto split: option.splits)
  with Cons.IH have "length es + work c' \<le> work d" by blast
  with work_decreases [OF step] show ?case by simp
qed simp

subsection \<open>No task waits forever\<close>

text \<open>
  The events that do not depend on a decision to stop: everything but the cancellation of the
  whole connection and the shutdown signal.
\<close>

fun ordinary :: "conn_event \<Rightarrow> bool" where
  "ordinary DropConnection = False"
| "ordinary (Shutdown w) = False"
| "ordinary _ = True"

definition stuck :: "serde \<Rightarrow> connection_limits \<Rightarrow> conn \<Rightarrow> bool" where
  "stuck S limits c \<longleftrightarrow> (\<forall>e. ordinary e \<longrightarrow> conn_step S limits e c = None)"

lemma stuckD: "stuck S limits c \<Longrightarrow> ordinary e \<Longrightarrow> conn_step S limits e c = None"
  by (simp add: stuck_def)

lemma stuck_writer:
  assumes "stuck S limits c"
  shows "w_finished (w_pc c) \<or> w_pc c = WRecv \<and> channel c = [] \<and> \<not> (c_finished (c_pc c) \<and> u_finished (u_pc c))"
  using stuckD [OF assms, of WriterPoll] stuckD [OF assms, of "WriterWritten None"]
  by (auto simp: writer_poll_def writer_written_def split: writer_pc.splits list.splits if_splits)

lemma stuck_client:
  assumes "stuck S limits c"
  shows "c_finished (c_pc c)"
proof (cases "c_pc c")
  case (CSend src b)
  then show ?thesis
    using stuckD [OF assms, of ClientPoll] stuck_writer [OF assms]
    by (auto simp: client_poll_def channel_send_def CHANNEL_FRAMES_def split: if_splits)
qed (use stuckD [OF assms, of ClientPoll] stuckD [OF assms, of "ClientWritten None"]
      stuckD [OF assms, of "RelayReturns (Inl relay_error_failed)"] in
    \<open>auto simp: client_poll_def client_written_def relay_returns_def\<close>)

lemma stuck_upstream:
  assumes "stuck S limits c"
  shows "u_finished (u_pc c)"
proof (cases "u_pc c")
  case (USend f)
  then show ?thesis
    using stuckD [OF assms, of UpstreamPoll] stuck_writer [OF assms]
    by (auto simp: upstream_poll_def channel_send_def CHANNEL_FRAMES_def split: if_splits)
qed (use stuckD [OF assms, of UpstreamPoll] in \<open>auto simp: upstream_poll_def\<close>)

lemma stuck_done:
  assumes "stuck S limits c"
  shows "c_finished (c_pc c) \<and> u_finished (u_pc c) \<and> w_finished (w_pc c) \<and> (s_pc c = SDone \<or> s_pc c = SDropped)"
proof -
  have fin: "c_finished (c_pc c)" "u_finished (u_pc c)" "w_finished (w_pc c)"
    using stuck_client [OF assms] stuck_upstream [OF assms] stuck_writer [OF assms] by auto
  moreover have "s_pc c = SDone \<or> s_pc c = SDropped"
    using stuckD [OF assms, of "Select WriterTask"] stuckD [OF assms, of SupervisorPoll] fin
    by (cases "s_pc c") (auto simp: supervisor_select_def supervisor_poll_def)
  ultimately show ?thesis by blast
qed

lemma can_complete:
  "\<exists>es d. list_all ordinary es \<and> conn_run S limits es c = Some d \<and> stuck S limits d"
proof (induction "work c" arbitrary: c rule: less_induct)
  case less
  show ?case
  proof (cases "stuck S limits c")
    case True
    then show ?thesis by (intro exI [of _ "[]"]) auto
  next
    case False
    then obtain e d where step: "ordinary e" "conn_step S limits e c = Some d"
      by (auto simp: stuck_def)
    with less.hyps [OF work_decreases [OF step(2)]] obtain es f
      where "list_all ordinary es" "conn_run S limits es d = Some f" "stuck S limits f" by blast
    with step show ?thesis by (intro exI [of _ "e # es"] exI [of _ f]) simp
  qed
qed

definition all_finished :: "conn \<Rightarrow> bool" where
  "all_finished c \<longleftrightarrow> c_finished (c_pc c) \<and> u_finished (u_pc c) \<and> w_finished (w_pc c)
     \<and> (s_pc c = SDone \<or> s_pc c = SDropped)"

subsection \<open>Properties of schedules\<close>

text \<open>
  C13: every schedule of a connection is finite. A run of any events, of all tasks and of the
  world around them, on streams that end has at most eight steps for each byte of the wallet,
  five for each byte of the upstream, and twelve more: no task loops without consuming input.
\<close>

theorem every_schedule_is_finite:
  assumes "conn_run S limits es (proxy_streams_start cs us) = Some c"
  shows "length es \<le> 8 * length (incoming cs) + 5 * length (incoming us) + 12"
  using run_length [OF assms] by (simp add: work_def proxy_streams_start_def wait_for_shutdown_def)

theorem every_schedule_is_finite_witness:
  "length (demo_events1 @ demo_events2 @ demo_events3)
     \<le> 8 * length (incoming demo_client) + 5 * length (incoming demo_upstream) + 12"
  by (rule every_schedule_is_finite [OF demo3_run])

text \<open>
  C14: every schedule can be completed, and a complete one leaves nothing behind. Whatever has
  happened, the ordinary events (reads, writes, returns of the relay, polls, joins; not the
  decision to cancel or to shut down) lead on until none is possible; and a state in which none
  is possible is one in which all three tasks and their supervisor have finished. So no task
  waits for another forever: a full channel, a pending reservation or a lost peer never block a
  connection.
\<close>

theorem every_schedule_completes:
  "(stuck S limits c \<longrightarrow> all_finished c)
   \<and> (\<exists>es d. list_all ordinary es \<and> conn_run S limits es c = Some d \<and> all_finished d)"
  using stuck_done [of S limits] can_complete [of S limits c] by (auto simp: all_finished_def)

theorem every_schedule_completes_witness:
  "\<not> all_finished demo1
   \<and> (\<exists>es d. list_all ordinary es \<and> conn_run demo_serde demo_limits es demo1 = Some d \<and> all_finished d)"
proof -
  have "\<not> all_finished demo1" by code_simp
  then show ?thesis using every_schedule_completes [of demo_serde demo_limits demo1] by blast
qed

end
