(* ===== verification/Connection_Close.thy ===== *)
theory Connection_Close
  imports Connection_Props
begin

text \<open>
  How a connection of \<open>src/proxy.rs\<close> closes: the writer closes the wallet's socket only when both
  senders are gone and the channel is empty, and the client task leaves its loop only when the
  broadcasts it read are answered. So nothing is lost by a clean close, in particular by a
  graceful shutdown.
\<close>

definition closed_cleanly :: "writer_pc \<Rightarrow> bool" where
  "closed_cleanly w \<longleftrightarrow> w = WClose \<or> w = WDone (Inr ())"

fun client_left :: "client_pc \<Rightarrow> bool" where
  "client_left (CDone r) = True"
| "client_left _ = False"

definition all_answered :: "serde \<Rightarrow> conn \<Rightarrow> bool" where
  "all_answered S c \<longleftrightarrow> map Some (replies RelayReply c) = expected_replies S c
     \<and> length (relayed c) = length (outcomes c)"

definition close_inv :: "serde \<Rightarrow> conn \<Rightarrow> bool" where
  "close_inv S c \<longleftrightarrow>
     (closed_cleanly (w_pc c) \<longrightarrow> c_finished (c_pc c) \<and> u_finished (u_pc c) \<and> channel c = []
        \<and> to_client c = concat (map snd (sent c)))
     \<and> (client_left (c_pc c) \<and> (w_finished (w_pc c) \<longrightarrow> closed_cleanly (w_pc c)) \<longrightarrow> all_answered S c)"

lemma idle_answered:
  assumes "reply_inv S c" "\<not> c_finished (c_pc c)" "due_reply (c_pc c) = []" "in_relay (c_pc c) = []"
  shows "all_answered S c"
  using assms by (auto simp: reply_inv_def all_answered_def)

lemma answered_cong:
  assumes "relayed c' = relayed c" "outcomes c' = outcomes c" "replies RelayReply c' = replies RelayReply c"
  shows "all_answered S c' \<longleftrightarrow> all_answered S c"
  using assms by (simp add: all_answered_def expected_replies_def)

lemma replies_own: "replies RelayReply c = map snd (filter (\<lambda>x. fst x = RelayReply) (filter (\<lambda>x. fst x \<noteq> FromUpstream) (sent c)))"
proof -
  have "(fst x \<noteq> FromUpstream \<and> fst x = RelayReply) = (fst x = RelayReply)" for x :: "origin \<times> bytes" by auto
  then show ?thesis by (simp add: replies_def)
qed

lemma left_finished: "client_left p \<Longrightarrow> c_finished p"
  by (cases p) simp_all

text \<open>A client task leaves its loop with everything answered, unless the writer has failed.\<close>

lemma leaves_answered:
  assumes "conn_step S limits e c = Some c'" "reply_inv S c" "closed_cleanly (w_pc c) \<longrightarrow> c_finished (c_pc c)"
    and "\<not> c_finished (c_pc c)" "client_left (c_pc c')" "w_finished (w_pc c') \<longrightarrow> closed_cleanly (w_pc c')"
  shows "all_answered S c'"
proof (cases e)
  case ClientPoll
  have "w_pc c' = w_pc c" "relayed c' = relayed c" "outcomes c' = outcomes c" "due_reply (c_pc c) = []"
      "in_relay (c_pc c) = []" "replies RelayReply c' = replies RelayReply c"
    using assms(1,3-6) ClientPoll
    by (auto simp: client_poll_def client_read_def client_reserve_def channel_send_def replies_def closed_cleanly_def
        client_dispatch_def reply_pc.simps
        split: client_pc.splits sum.splits prod.splits option.splits io_error_kind.splits reservation.splits if_splits
          client_frame.splits)
  then show ?thesis using answered_cong idle_answered [OF assms(2,4)] by blast
next
  case (ClientWritten f)
  have "relayed c' = relayed c" "outcomes c' = outcomes c" "due_reply (c_pc c) = []"
      "in_relay (c_pc c) = []" "replies RelayReply c' = replies RelayReply c"
    using assms(1) ClientWritten by (auto simp: client_written_def replies_def split: client_pc.splits option.splits)
  then show ?thesis using answered_cong idle_answered [OF assms(2,4)] by blast
next
  case (RelayReturns r)
  with assms(1,5) show ?thesis by (auto simp: relay_returns_def split: client_pc.splits option.splits)
qed (use other_events_frame [OF assms(1)] assms(4,5) left_finished in auto)

text \<open>Once all senders are finished, nothing is sent any more, and a finished client stays as it is.\<close>

lemma finished_frame:
  assumes "conn_step S limits e c = Some c'" "c_finished (c_pc c)"
  shows "relayed c' = relayed c" "outcomes c' = outcomes c" "replies RelayReply c' = replies RelayReply c" "c_pc c' = c_pc c"
    "u_finished (u_pc c) \<Longrightarrow> sent c' = sent c \<and> (channel c = [] \<longrightarrow> channel c' = [])"
proof -
  have c: "\<not> client_event e" using assms by (cases e; cases "c_pc c") (auto simp: step_defs)
  note frame = other_events_frame [OF assms(1) c]
  show "relayed c' = relayed c" "outcomes c' = outcomes c" using frame by simp_all
  show "replies RelayReply c' = replies RelayReply c" using frame by (simp add: replies_own)
  show "c_pc c' = c_pc c" using assms c by (cases e) (auto simp: step_defs channel_send_def split: step_splits)
  show "u_finished (u_pc c) \<Longrightarrow> sent c' = sent c \<and> (channel c = [] \<longrightarrow> channel c' = [])"
    using assms c by (cases e) (auto simp: step_defs split: step_splits)
qed

lemma clean_step:
  assumes "conn_step S limits e c = Some c'" "closed_cleanly (w_pc c')"
  shows "closed_cleanly (w_pc c) \<and> to_client c' = to_client c
    \<or> w_pc c = WRecv \<and> channel c = [] \<and> c_finished (c_pc c) \<and> u_finished (u_pc c) \<and> to_client c' = to_client c"
  using assms
  by (cases e) (auto simp: step_defs closed_cleanly_def client_read_def client_reserve_def channel_send_def split: step_splits)

lemma close_inv_step:
  assumes "conn_step S limits e c = Some c'" "close_inv S c" "reply_inv S c" "output_inv c"
  shows "close_inv S c'"
  unfolding close_inv_def
proof (intro conjI impI)
  assume "closed_cleanly (w_pc c')"
  from clean_step [OF assms(1) this]
  have fin: "c_finished (c_pc c)" "u_finished (u_pc c)" "channel c = []" "to_client c' = concat (map snd (sent c))"
    using assms(2,4) by (auto simp: close_inv_def output_inv_def)
  then show "c_finished (c_pc c')" "u_finished (u_pc c')" using finished_stays [OF assms(1)] by blast+
  show "channel c' = []" "to_client c' = concat (map snd (sent c'))"
    using finished_frame(5) [OF assms(1) fin(1,2)] fin by auto
next
  assume now: "client_left (c_pc c') \<and> (w_finished (w_pc c') \<longrightarrow> closed_cleanly (w_pc c'))"
  show "all_answered S c'"
  proof (cases "c_finished (c_pc c)")
    case False
    then show ?thesis using leaves_answered [OF assms(1,3) _ False] assms(2) now by (simp add: close_inv_def)
  next
    case True
    note frame = finished_frame [OF assms(1) True]
    have "w_finished (w_pc c) \<longrightarrow> closed_cleanly (w_pc c)"
      using now finished_stays [OF assms(1)] clean_step [OF assms(1)] by auto
    then have "all_answered S c" using assms(2) now frame(4) by (simp add: close_inv_def)
    then show ?thesis using answered_cong [OF frame(1-3)] by blast
  qed
qed

lemma close_inv_run:
  assumes "conn_run S limits es (proxy_streams_start cs us) = Some c"
  shows "close_inv S c"
proof -
  have "close_inv S c \<and> reply_inv S c \<and> output_inv c"
  proof (rule conn_run_invariant [OF assms])
    show "close_inv S (proxy_streams_start cs us) \<and> reply_inv S (proxy_streams_start cs us) \<and> output_inv (proxy_streams_start cs us)"
      by (simp add: close_inv_def closed_cleanly_def reply_inv_def output_inv_def proxy_streams_start_def replies_def
          expected_replies_def)
  qed (blast intro: close_inv_step reply_inv_step output_inv_step)
  then show ?thesis by blast
qed

text \<open>
  A run that shuts down in the middle of a broadcast: the signal comes while the call is in the
  relay, the call returns, and its response is flushed before the socket is closed.
\<close>

definition graceful_events :: "conn_event list" where
  "graceful_events = demo_events1 @ [Shutdown \<lparr>requested = True, sender_alive = True\<rparr>,
     RelayReturns (Inr (replicate 64 CHR ''a'')), ClientPoll, ClientPoll, ClientPoll, Select ClientTask,
     Cancel UpstreamTask, SupervisorPoll, WriterPoll, WriterWritten None, WriterPoll, WriterWritten None, SupervisorPoll]"

definition graceful :: conn where "graceful = run_or_start graceful_events"

lemma graceful_run:
  "conn_run demo_serde demo_limits graceful_events (proxy_streams_start demo_client demo_upstream) = Some graceful"
proof -
  have "conn_run demo_serde demo_limits graceful_events demo_start \<noteq> None" by code_simp
  then show ?thesis unfolding graceful_def by (rule run_or_start_run)
qed

text \<open>
  C7: a connection that closes cleanly has lost nothing. When the writer has closed the wallet's
  socket without an error, both other tasks are finished and every frame that was ever queued
  has been written, in full and in order. If moreover the client task left its loop by itself
  (at the end of the input, for shutdown, after an error response or a failed write to the
  upstream) and was not cancelled, then every broadcast that was given to the relay has its
  outcome, and the response to each is among these frames.
\<close>

theorem clean_close_delivers_all:
  assumes "conn_run S limits es (proxy_streams_start cs us) = Some c" "w_pc c = WDone (Inr ())"
  shows "c_finished (c_pc c) \<and> u_finished (u_pc c) \<and> to_client c = concat (map snd (sent c))
    \<and> (\<forall>r. c_pc c = CDone r \<longrightarrow> length (outcomes c) = length (relayed c)
         \<and> map Some (replies RelayReply c)
             = map2 (\<lambda>call outcome. broadcast_response S (fst call) outcome) (relayed c) (outcomes c))"
  using close_inv_run [OF assms(1)] assms(2)
  by (auto simp: close_inv_def closed_cleanly_def all_answered_def expected_replies_def)

theorem clean_close_delivers_all_witness:
  "c_pc graceful = CDone (Inr ()) \<and> relayed graceful = [(num 2, ''00ff'')]
   \<and> map Some [to_client graceful] = [success_response demo_serde (num 2) (replicate 64 CHR ''a'')]
   \<and> to_client graceful = concat (map snd (sent graceful))
   \<and> map Some (replies RelayReply graceful)
       = map2 (\<lambda>call outcome. broadcast_response demo_serde (fst call) outcome) (relayed graceful) (outcomes graceful)"
proof -
  have "w_pc graceful = WDone (Inr ())" "c_pc graceful = CDone (Inr ())" "relayed graceful = [(num 2, ''00ff'')]"
    "map Some [to_client graceful] = [success_response demo_serde (num 2) (replicate 64 CHR ''a'')]"
    by code_simp+
  then show ?thesis using clean_close_delivers_all [OF graceful_run] by blast
qed

end
