(* ===== verification/Server.thy ===== *)
theory Server
  imports Admission Config Connection
begin

text \<open>
  \<open>serve_until\<close> of \<open>src/proxy.rs\<close>: the listener, the slots of the connections and the
  bounded shutdown. A connection task holds its slot while it connects to the upstream and while
  it proxies; the \<open>JoinSet\<close> holds every task that was not joined. \<open>serve_select\<close> is one turn
  of the biased select, with the arm that is ready; \<open>task_step\<close> is what a connection task does
  by itself; \<open>drain_step_join\<close> and \<open>drain_expires\<close> are the shutdown phase. Two counters record
  the connections that were accepted and those that ended and were joined.
\<close>

datatype proxy_error = ProxyError rstr

record shutdown_report =
  all_connections_drained :: bool

definition CONNECTION_RESPONSE_FLUSH_GRACE :: duration where
  "CONNECTION_RESPONSE_FLUSH_GRACE = from_secs 1"

datatype conn_task = Connecting | Proxying | Ended | Broken

fun holds_slot :: "conn_task \<Rightarrow> bool" where
  "holds_slot Connecting = True"
| "holds_slot Proxying = True"
| "holds_slot _ = False"

datatype server_phase =
    Serving
  | DrainingConnections
  | Returned "proxy_error + shutdown_report"

record 'sem server =
  phase :: server_phase
  connection_slots :: 'sem
  connections :: "conn_task multiset"
  shutdown_ready :: bool
  shutdown_sent :: bool
  drain_nanos :: nat
  accepted_count :: nat
  joined_count :: nat

definition serve_start :: "'sem semaphore \<Rightarrow> config \<Rightarrow> proxy_error option \<Rightarrow> 'sem server" where
  "serve_start X cfg bind_error =
     \<lparr>phase = (case bind_error of None \<Rightarrow> Serving | Some e \<Rightarrow> Returned (Inl e)),
      connection_slots = sem_new X (unat (max_connections cfg)), connections = {#},
      shutdown_ready = False, shutdown_sent = False, drain_nanos = 0,
      accepted_count = 0, joined_count = 0\<rparr>"

definition take_slot :: "'sem semaphore \<Rightarrow> 'sem server \<Rightarrow> 'sem server option" where
  "take_slot X s = map_option (\<lambda>p. s\<lparr>connection_slots := p\<rparr>) (sem_try_acquire_many X (connection_slots s) 1)"

definition drop_slots :: "'sem semaphore \<Rightarrow> nat \<Rightarrow> 'sem server \<Rightarrow> 'sem server" where
  "drop_slots X n s = s\<lparr>connection_slots := sem_add_permits X (connection_slots s) n\<rparr>"

text \<open>
  \<open>JoinSet::shutdown\<close>, and the drop of the set on an accept error: every task is aborted and
  drops its slot. The drop does not wait for the aborted tasks; their slots are then returned
  some time after \<open>serve_until\<close>, when nothing takes a slot any more, and the model returns them
  at once.
\<close>

definition abort_all :: "'sem semaphore \<Rightarrow> 'sem server \<Rightarrow> 'sem server" where
  "abort_all X s =
     (drop_slots X (size (filter_mset holds_slot (connections s))) s)\<lparr>connections := {#}\<rparr>"

subsection \<open>Serving\<close>

datatype arm = ShutdownArm | JoinArm conn_task | AcceptArm "proxy_error option"

definition serve_select :: "'sem semaphore \<Rightarrow> arm \<Rightarrow> 'sem server \<Rightarrow> 'sem server option" where
  "serve_select X arm s =
     (if phase s \<noteq> Serving then None
      else case arm of
        ShutdownArm \<Rightarrow>
          if shutdown_ready s then Some (s\<lparr>phase := DrainingConnections, shutdown_sent := True\<rparr>) else None
      | JoinArm task \<Rightarrow>
          if shutdown_ready s \<or> task \<notin># connections s \<or> holds_slot task then None
          else if task = Broken
          then Some ((abort_all X (s\<lparr>connections := connections s - {#task#}\<rparr>))
                       \<lparr>phase := Returned (Inl (ProxyError ''connection task failed''))\<rparr>)
          else Some (s\<lparr>connections := connections s - {#task#}, joined_count := joined_count s + 1\<rparr>)
      | AcceptArm error \<Rightarrow>
          if shutdown_ready s \<or> (\<exists>t \<in># connections s. \<not> holds_slot t) then None
          else (case error of
                  Some e \<Rightarrow> Some ((abort_all X s)\<lparr>phase := Returned (Inl e)\<rparr>)
                | None \<Rightarrow>
                    (case take_slot X s of
                       None \<Rightarrow> Some s
                     | Some s' \<Rightarrow>
                         Some (s'\<lparr>connections := add_mset Connecting (connections s'),
                                  accepted_count := accepted_count s' + 1\<rparr>))))"

text \<open>The limits a connection task hands to \<open>proxy_streams_until\<close>.\<close>

definition task_limits :: "config \<Rightarrow> connection_limits" where
  "task_limits cfg = \<lparr>limit_frame_bytes = max_frame_bytes cfg,
                      limit_pending = pending_limit_get (max_pending_requests cfg)\<rparr>"

subsection \<open>A connection task\<close>

text \<open>
  The connection to the query upstream, by its name and port, under the connect timeout; the
  attempt is the network's answer and the time it takes.
\<close>

definition task_connect :: "config \<Rightarrow> (rstr \<times> u16 \<Rightarrow> bool timed) \<Rightarrow> bool" where
  "task_connect cfg attempt =
     (snd (timeout (connect_timeout cfg) (attempt (host (upstream cfg), port (upstream cfg)))) = Some True)"

datatype task_event =
    ConnectReady "rstr \<times> u16 \<Rightarrow> bool timed"
  | SeesShutdown
  | ProxyReturns
  | Breaks

fun task_result :: "config \<Rightarrow> bool \<Rightarrow> task_event \<Rightarrow> conn_task \<Rightarrow> conn_task option" where
  "task_result cfg stop (ConnectReady attempt) Connecting =
     (if stop then None else Some (if task_connect cfg attempt then Proxying else Ended))"
| "task_result cfg stop SeesShutdown Connecting = (if stop then Some Ended else None)"
| "task_result cfg stop ProxyReturns Proxying = Some Ended"
| "task_result cfg stop Breaks Connecting = Some Broken"
| "task_result cfg stop Breaks Proxying = Some Broken"
| "task_result cfg stop _ _ = None"

definition task_step :: "'sem semaphore \<Rightarrow> config \<Rightarrow> conn_task \<Rightarrow> task_event \<Rightarrow> 'sem server \<Rightarrow> 'sem server option" where
  "task_step X cfg task e s =
     (if task \<notin># connections s then None
      else case task_result cfg (shutdown_sent s) e task of
             None \<Rightarrow> None
           | Some task' \<Rightarrow>
               Some ((if holds_slot task' then s else drop_slots X 1 s)
                       \<lparr>connections := add_mset task' (connections s - {#task#})\<rparr>))"

subsection \<open>The bounded shutdown\<close>

definition maximum_wait :: "config \<Rightarrow> duration" where
  "maximum_wait cfg = saturating_add (relay_timeout cfg) CONNECTION_RESPONSE_FLUSH_GRACE"

definition report :: "bool \<Rightarrow> 'sem server \<Rightarrow> 'sem server" where
  "report drained s = s\<lparr>phase := Returned (Inr \<lparr>all_connections_drained = drained\<rparr>)\<rparr>"

definition drain_step_join :: "'sem semaphore \<Rightarrow> conn_task option \<Rightarrow> 'sem server \<Rightarrow> 'sem server option" where
  "drain_step_join X joined s =
     (if phase s \<noteq> DrainingConnections then None
      else case joined of
        None \<Rightarrow> if connections s = {#} then Some (report True s) else None
      | Some task \<Rightarrow>
          if task \<notin># connections s \<or> holds_slot task then None
          else if task = Broken
          then Some (report False (abort_all X (s\<lparr>connections := connections s - {#task#}\<rparr>)))
          else Some (s\<lparr>connections := connections s - {#task#}, joined_count := joined_count s + 1\<rparr>))"

definition drain_expires :: "'sem semaphore \<Rightarrow> config \<Rightarrow> 'sem server \<Rightarrow> 'sem server option" where
  "drain_expires X cfg s =
     (if phase s \<noteq> DrainingConnections \<or> connections s = {#}
         \<or> drain_nanos s < as_nanos (maximum_wait cfg) then None
      else Some (report False (abort_all X s)))"

text \<open>Time passes while connections are drained, up to the deadline.\<close>

definition drain_ticks :: "config \<Rightarrow> nat \<Rightarrow> 'sem server \<Rightarrow> 'sem server option" where
  "drain_ticks cfg n s =
     (if phase s = DrainingConnections \<and> drain_nanos s + n \<le> as_nanos (maximum_wait cfg)
      then Some (s\<lparr>drain_nanos := drain_nanos s + n\<rparr>) else None)"

subsection \<open>Runs\<close>

datatype server_event =
    ShutdownResolves
  | Turn arm
  | Task conn_task task_event
  | Join "conn_task option"
  | Ticks nat
  | Deadline

fun server_step :: "'sem semaphore \<Rightarrow> config \<Rightarrow> server_event \<Rightarrow> 'sem server \<Rightarrow> 'sem server option" where
  "server_step X cfg ShutdownResolves s = Some (s\<lparr>shutdown_ready := True\<rparr>)"
| "server_step X cfg (Turn arm) s = serve_select X arm s"
| "server_step X cfg (Task task e) s = task_step X cfg task e s"
| "server_step X cfg (Join joined) s = drain_step_join X joined s"
| "server_step X cfg (Ticks n) s = drain_ticks cfg n s"
| "server_step X cfg Deadline s = drain_expires X cfg s"

fun server_run :: "'sem semaphore \<Rightarrow> config \<Rightarrow> server_event list \<Rightarrow> 'sem server \<Rightarrow> 'sem server option" where
  "server_run X cfg [] s = Some s"
| "server_run X cfg (e # es) s = (case server_step X cfg e s of None \<Rightarrow> None | Some s' \<Rightarrow> server_run X cfg es s')"

subsection \<open>The slots are an admission\<close>

definition slots_held :: "'sem semaphore \<Rightarrow> nat \<Rightarrow> 'sem server \<Rightarrow> conn_task multiset \<Rightarrow> bool" where
  "slots_held X limit s M \<longleftrightarrow> semaphore_laws X \<and> sem_available X (connection_slots s) + size M = limit"

interpretation slots: admission "\<lambda>s task. take_slot X s" "\<lambda>s task. drop_slots X 1 s" "slots_held X limit"
  for X :: "'sem semaphore" and limit
proof unfold_locales
  fix s s' :: "'sem server" and M and r :: conn_task
  assume "slots_held X limit s M" "take_slot X s = Some s'"
  then show "slots_held X limit s' (add_mset r M)"
    by (auto simp: slots_held_def take_slot_def dest!: semaphore_try_SomeD)
next
  fix s :: "'sem server" and M and r :: conn_task
  assume "slots_held X limit s M" "r \<in># M"
  then show "slots_held X limit (drop_slots X 1 s) (M - {#r#})"
    by (auto simp: slots_held_def drop_slots_def semaphore_add dest!: multi_member_split)
qed

definition slot_inv :: "'sem semaphore \<Rightarrow> nat \<Rightarrow> 'sem server \<Rightarrow> bool" where
  "slot_inv X limit s \<longleftrightarrow> slots_held X limit s (filter_mset holds_slot (connections s))"

lemma slot_inv_upd:
  "slot_inv X limit s \<Longrightarrow> connection_slots t = connection_slots s \<Longrightarrow>
     filter_mset holds_slot (connections t) = filter_mset holds_slot (connections s) \<Longrightarrow> slot_inv X limit t"
  by (simp add: slot_inv_def slots_held_def)

lemma slot_inv_join [simp]:
  "\<not> holds_slot task \<Longrightarrow> slot_inv X limit (s\<lparr>connections := connections s - {#task#}\<rparr>) \<longleftrightarrow> slot_inv X limit s"
  "\<not> holds_slot task \<Longrightarrow>
     slot_inv X limit (s\<lparr>connections := connections s - {#task#}, joined_count := n\<rparr>) \<longleftrightarrow> slot_inv X limit s"
  by (simp_all add: slot_inv_def slots_held_def)

lemma slot_inv_abort_all: "slot_inv X limit s \<Longrightarrow> slot_inv X limit (abort_all X s)"
  by (simp add: slot_inv_def slots_held_def abort_all_def drop_slots_def semaphore_add)

lemma slot_inv_report [simp]: "slot_inv X limit (report b s) \<longleftrightarrow> slot_inv X limit s"
  by (simp add: slot_inv_def slots_held_def report_def)

lemma slot_inv_phase [simp]: "slot_inv X limit (s\<lparr>phase := p\<rparr>) \<longleftrightarrow> slot_inv X limit s"
  by (simp add: slot_inv_def slots_held_def)

lemma slot_inv_task:
  assumes "task_step X cfg task e s = Some t" "slot_inv X limit s"
  shows "slot_inv X limit t"
proof -
  obtain task' where mem: "task \<in># connections s" and res: "task_result cfg (shutdown_sent s) e task = Some task'"
    and t: "t = (if holds_slot task' then s else drop_slots X 1 s)
                       \<lparr>connections := add_mset task' (connections s - {#task#})\<rparr>"
    using assms(1) by (auto simp: task_step_def split: if_splits option.splits)
  from res have slot: "holds_slot task"
    by (cases "(cfg, shutdown_sent s, e, task)" rule: task_result.cases) auto
  with mem have "task \<in># filter_mset holds_slot (connections s)" by simp
  from slots.release_holds [OF _ this, of X limit s] assms(2)
  have "slots_held X limit (drop_slots X 1 s) (filter_mset holds_slot (connections s) - {#task#})"
    by (simp add: slot_inv_def)
  moreover have "size (filter_mset holds_slot (connections s) - {#task#}) + 1 = size (filter_mset holds_slot (connections s))"
    using mem slot by (metis Suc_eq_plus1 filter_mset_eq_conv insert_DiffM mem_Collect_eq set_mset_filter size_add_mset IntI Int_iff)
  ultimately show ?thesis
    using t slot assms(2) by (auto simp: slot_inv_def slots_held_def drop_slots_def)
qed

lemma slot_inv_step:
  assumes "server_step X cfg e s = Some t" "slot_inv X limit s"
  shows "slot_inv X limit t"
proof (cases e)
  case ShutdownResolves
  with assms show ?thesis by (auto intro: slot_inv_upd)
next
  case (Turn arm)
  show ?thesis
  proof (cases arm)
    case ShutdownArm
    with Turn assms show ?thesis
      by (auto simp: serve_select_def split: if_splits intro: slot_inv_upd [OF assms(2)])
  next
    case (JoinArm task)
    with Turn assms show ?thesis
      by (auto simp: serve_select_def split: if_splits intro!: slot_inv_abort_all intro: slot_inv_upd [OF assms(2)])
  next
    case (AcceptArm error)
    have "slot_inv X limit (s'\<lparr>connections := add_mset Connecting (connections s'), accepted_count := n\<rparr>)"
      if "take_slot X s = Some s'" for s' n
      using slots.admit_holds [of X limit s "filter_mset holds_slot (connections s)" s' Connecting] that assms(2)
      by (auto simp: slot_inv_def slots_held_def take_slot_def)
    with AcceptArm Turn assms show ?thesis
      by (auto simp: serve_select_def split: if_splits option.splits intro: slot_inv_abort_all)
  qed
next
  case (Task task e)
  with assms show ?thesis by (auto intro: slot_inv_task)
next
  case (Join joined)
  with assms show ?thesis
    by (auto simp: drain_step_join_def split: if_splits option.splits intro!: slot_inv_abort_all
        intro: slot_inv_upd [OF assms(2)])
next
  case (Ticks n)
  with assms show ?thesis
    by (auto simp: drain_ticks_def split: if_splits intro: slot_inv_upd [OF assms(2)])
next
  case Deadline
  with assms show ?thesis
    by (auto simp: drain_expires_def split: if_splits intro!: slot_inv_abort_all)
qed

subsection \<open>The account of the connections\<close>

definition account_inv :: "'sem server \<Rightarrow> bool" where
  "account_inv s \<longleftrightarrow>
     (case phase s of
        Serving \<Rightarrow> accepted_count s = joined_count s + size (connections s) \<and> \<not> shutdown_sent s
      | DrainingConnections \<Rightarrow> accepted_count s = joined_count s + size (connections s)
          \<and> shutdown_sent s \<and> shutdown_ready s
      | Returned (Inl e) \<Rightarrow> connections s = {#} \<and> joined_count s \<le> accepted_count s
      | Returned (Inr r) \<Rightarrow> connections s = {#} \<and> joined_count s \<le> accepted_count s \<and> shutdown_ready s
          \<and> (all_connections_drained r \<longleftrightarrow> joined_count s = accepted_count s))"

lemma task_step_frame:
  assumes "task_step X cfg task e s = Some t"
  shows "phase t = phase s \<and> size (connections t) = size (connections s) \<and> accepted_count t = accepted_count s
    \<and> joined_count t = joined_count s \<and> shutdown_sent t = shutdown_sent s \<and> shutdown_ready t = shutdown_ready s
    \<and> connections s \<noteq> {#}"
  using assms
  by (auto simp: task_step_def drop_slots_def size_Diff_singleton split: if_splits option.splits)
    (metis Suc_pred nonempty_has_size empty_iff set_mset_empty)+

lemma account_inv_step:
  assumes "server_step X cfg e s = Some t" "account_inv s"
  shows "account_inv t"
proof (cases e)
  case (Task task te)
  with assms task_step_frame [of X cfg task te s t] show ?thesis
    by (auto simp: account_inv_def split: server_phase.splits sum.splits)
next
  case ShutdownResolves
  with assms show ?thesis by (auto simp: account_inv_def split: server_phase.splits sum.splits)
next
  case (Turn arm)
  then have sel: "serve_select X arm s = Some t" "phase s = Serving"
    using assms(1) by (auto simp: serve_select_def split: if_splits)
  then have acc: "accepted_count s = joined_count s + size (connections s)" "\<not> shutdown_sent s"
    using assms(2) by (auto simp: account_inv_def)
  show ?thesis
  proof (cases arm)
    case (JoinArm task)
    with sel acc size_Suc_Diff1 [of task "connections s"] show ?thesis
      by (auto simp: serve_select_def account_inv_def abort_all_def drop_slots_def split: if_splits)
  qed (use sel acc in \<open>auto simp: serve_select_def account_inv_def abort_all_def drop_slots_def take_slot_def
        split: if_splits option.splits\<close>)
next
  case (Join joined)
  then have join: "drain_step_join X joined s = Some t" "phase s = DrainingConnections"
    using assms(1) by (auto simp: drain_step_join_def split: if_splits)
  then have acc: "accepted_count s = joined_count s + size (connections s)" "shutdown_sent s" "shutdown_ready s"
    using assms(2) by (auto simp: account_inv_def)
  show ?thesis
  proof (cases joined)
    case (Some task)
    with join acc size_Suc_Diff1 [of task "connections s"] show ?thesis
      by (auto simp: drain_step_join_def account_inv_def abort_all_def drop_slots_def report_def split: if_splits)
  qed (use join acc in \<open>auto simp: drain_step_join_def account_inv_def report_def split: if_splits\<close>)
next
  case (Ticks n)
  with assms show ?thesis
    by (auto simp: drain_ticks_def account_inv_def split: if_splits)
next
  case Deadline
  with assms show ?thesis
    by (auto simp: drain_expires_def account_inv_def abort_all_def drop_slots_def report_def
        split: if_splits server_phase.splits)
qed

lemma server_run_invariant:
  assumes "server_run X cfg es s = Some t" "P s"
    and "\<And>e s t. server_step X cfg e s = Some t \<Longrightarrow> P s \<Longrightarrow> P t"
  shows "P t"
  using assms(1,2)
proof (induction es arbitrary: s)
  case (Cons e es)
  then obtain u where "server_step X cfg e s = Some u" "server_run X cfg es u = Some t"
    by (auto split: option.splits)
  with Cons.IH Cons.prems(2) assms(3) show ?case by blast
qed simp

lemma server_run_invs:
  assumes "server_run X cfg es (serve_start X cfg b) = Some s"
  shows "semaphore_laws X \<Longrightarrow> slot_inv X (unat (max_connections cfg)) s" and "account_inv s"
proof -
  have "slot_inv X (unat (max_connections cfg)) (serve_start X cfg b)" if "semaphore_laws X"
    using that by (simp add: slot_inv_def slots_held_def serve_start_def semaphore_new)
  then show "slot_inv X (unat (max_connections cfg)) s" if "semaphore_laws X"
    using server_run_invariant [OF assms, of "slot_inv X (unat (max_connections cfg))"] slot_inv_step that by blast
  have "account_inv (serve_start X cfg b)"
    by (auto simp: account_inv_def serve_start_def split: option.splits)
  then show "account_inv s"
    using server_run_invariant [OF assms, of account_inv] account_inv_step by blast
qed


text \<open>
  A run with two connections: one proxies when shutdown comes and outlasts the deadline, the
  other sees the signal while it connects.
\<close>

definition demo_server_events :: "server_event list" where
  "demo_server_events = [Turn (AcceptArm None), Turn (AcceptArm None),
     Task Connecting (ConnectReady (\<lambda>target. After (from_secs 2) True)),
     ShutdownResolves, Turn ShutdownArm, Task Connecting SeesShutdown, Join (Some Ended)]"

definition demo_config :: config where
  "demo_config = config_of_cli cli_defaults"

definition demo_server :: "nat server" where
  "demo_server = \<lparr>phase = DrainingConnections, connection_slots = 127, connections = {#Proxying#},
     shutdown_ready = True, shutdown_sent = True, drain_nanos = 0, accepted_count = 2, joined_count = 1\<rparr>"

lemma demo_server_run:
  "server_run counter_semaphore demo_config demo_server_events (serve_start counter_semaphore demo_config None)
     = Some demo_server"
  by (simp add: demo_server_events_def demo_server_def demo_config_def serve_start_def config_of_cli_def
      cli_defaults_def config_consts task_connect_def from_secs_def less_eq_duration_def serve_select_def take_slot_def counter_semaphore_def task_step_def drop_slots_def drain_step_join_def)

lemma demo_wait: "as_nanos (maximum_wait demo_config) = 31000000000"
  by (simp add: maximum_wait_def demo_config_def config_of_cli_def cli_defaults_def from_secs_def
      CONNECTION_RESPONSE_FLUSH_GRACE_def saturating_add_def duration_MAX_def min_def less_eq_duration_def)

lemma server_run_append:
  "server_run X cfg (xs @ ys) s = Option.bind (server_run X cfg xs s) (server_run X cfg ys)"
  by (induction xs arbitrary: s) (auto split: option.splits)



subsection \<open>Properties of the listener\<close>

text \<open>
  The connections of the process stay within the configured number. In every schedule, the
  connection tasks that connect or proxy are at most \<open>max_connections\<close>, and the free slots are
  exactly the others: a slot is returned whichever way its task ends, also by a panic or by
  cancellation.
\<close>

lemma connections_bounded:
  assumes "semaphore_laws X" "server_run X cfg es (serve_start X cfg b) = Some s"
  shows "size (filter_mset holds_slot (connections s)) \<le> unat (max_connections cfg)
    \<and> sem_available X (connection_slots s)
        = unat (max_connections cfg) - size (filter_mset holds_slot (connections s))"
  using server_run_invs(1) [OF assms(2,1)] by (auto simp: slot_inv_def slots_held_def)

text \<open>
  C23: the shutdown report is right. When \<open>serve_until\<close> returns, no connection task is left;
  and it returns a report only after shutdown was requested, which says that all connections
  were drained precisely when every connection ever accepted ended by itself and was joined.
\<close>

theorem shutdown_report_exact:
  assumes "server_run X cfg es (serve_start X cfg b) = Some s" "phase s = Returned r"
  shows "connections s = {#}
    \<and> (\<forall>rep. r = Inr rep \<longrightarrow> shutdown_ready s
         \<and> (all_connections_drained rep \<longleftrightarrow> joined_count s = accepted_count s))"
  using server_run_invs(2) [OF assms(1)] assms(2)
  by (auto simp: account_inv_def split: sum.splits)

theorem shutdown_report_exact_witness:
  "\<exists>s. server_run counter_semaphore demo_config (demo_server_events @ [Ticks 31000000000, Deadline])
         (serve_start counter_semaphore demo_config None) = Some s
     \<and> phase s = Returned (Inr \<lparr>all_connections_drained = False\<rparr>)
     \<and> connections s = {#} \<and> joined_count s \<noteq> accepted_count s"
proof -
  obtain s where run: "server_run counter_semaphore demo_config (demo_server_events @ [Ticks 31000000000, Deadline])
      (serve_start counter_semaphore demo_config None) = Some s"
    and phase: "phase s = Returned (Inr \<lparr>all_connections_drained = False\<rparr>)"
    by (simp add: server_run_append demo_server_run)
      (simp add: demo_server_def demo_wait drain_ticks_def drain_expires_def report_def)
  from shutdown_report_exact [OF run phase] run phase show ?thesis by auto
qed



end
