(* ===== verification/Limited.thy ===== *)
theory Limited
  imports Admission Relay
begin

text \<open>
  \<open>src/relay/limited.rs\<close>: the process-wide limiter in front of the adapter. Its state is two
  semaphores, one for the number of submissions and one for the bytes of their transactions.
  \<open>limited_broadcast\<close> is the body of one call, with the state the other calls leave while the
  adapter runs given by the adapter's argument; \<open>limited_step\<close> is the interleaving of any
  number of calls, one step per semaphore operation.

  The lemmas show that the permits taken are those of the calls inside, for every
  interleaving, and that no call waits.
\<close>

record 'sem limited_relay =
  requests :: 'sem
  payload_bytes :: 'sem

definition with_payload_budget ::
  "'sem semaphore \<Rightarrow> concurrent_broadcast_limit \<Rightarrow> usize \<Rightarrow> 'sem limited_relay" where
  "with_payload_budget X limit payload_budget =
     \<lparr>requests = sem_new X (unat (broadcast_limit_get limit)),
      payload_bytes = sem_new X (unat payload_budget)\<rparr>"

definition limited_new :: "'sem semaphore \<Rightarrow> concurrent_broadcast_limit \<Rightarrow> 'sem limited_relay" where
  "limited_new X limit = with_payload_budget X limit MAX_CONFIGURABLE_IN_FLIGHT_BROADCAST_BYTES"

subsection \<open>The four semaphore operations of a call\<close>

definition acquire_request :: "'sem semaphore \<Rightarrow> 'sem limited_relay \<Rightarrow> 'sem limited_relay option" where
  "acquire_request X st = map_option (\<lambda>s. st\<lparr>requests := s\<rparr>) (sem_try_acquire_many X (requests st) 1)"

definition acquire_payload ::
  "'sem semaphore \<Rightarrow> u32 \<Rightarrow> 'sem limited_relay \<Rightarrow> 'sem limited_relay option" where
  "acquire_payload X n st =
     map_option (\<lambda>s. st\<lparr>payload_bytes := s\<rparr>) (sem_try_acquire_many X (payload_bytes st) (unat n))"

definition drop_request :: "'sem semaphore \<Rightarrow> 'sem limited_relay \<Rightarrow> 'sem limited_relay" where
  "drop_request X st = st\<lparr>requests := sem_add_permits X (requests st) 1\<rparr>"

definition drop_payload :: "'sem semaphore \<Rightarrow> u32 \<Rightarrow> 'sem limited_relay \<Rightarrow> 'sem limited_relay" where
  "drop_payload X n st = st\<lparr>payload_bytes := sem_add_permits X (payload_bytes st) (unat n)\<rparr>"

text \<open>
  One call. The adapter's argument is the state it is called in; it returns the outcome and
  the state it finds when it returns, with the two permits still held. They are dropped in the
  reverse order of their acquisition.
\<close>

definition limited_broadcast ::
  "'sem semaphore \<Rightarrow> (rstr \<Rightarrow> 'sem limited_relay \<Rightarrow> relay_outcome \<times> 'sem limited_relay)
     \<Rightarrow> rstr \<Rightarrow> 'sem limited_relay \<Rightarrow> relay_outcome \<times> 'sem limited_relay" where
  "limited_broadcast X inner raw_transaction st =
     (case u32_try_from (length raw_transaction) of
        None \<Rightarrow> (Inl relay_error_failed, st)
      | Some payload_permits \<Rightarrow>
          (case acquire_request X st of
             None \<Rightarrow> (Inl relay_error_failed, st)
           | Some st1 \<Rightarrow>
               (case acquire_payload X payload_permits st1 of
                  None \<Rightarrow> (Inl relay_error_failed, drop_request X st1)
                | Some st2 \<Rightarrow>
                    (let (outcome, st3) = inner raw_transaction st2
                     in (outcome, drop_request X (drop_payload X payload_permits st3))))))"

subsection \<open>Any number of calls\<close>

text \<open>A call holds its request permit, and in the adapter also its byte permits.\<close>

datatype limited_call = HoldsRequest rstr | InAdapter rstr

record 'sem limited_system =
  relay :: "'sem limited_relay"
  calls :: "limited_call multiset"

definition permits :: "rstr \<Rightarrow> u32" where
  "permits raw = (case u32_try_from (length raw) of Some n \<Rightarrow> n | None \<Rightarrow> 0)"

inductive limited_step :: "'sem semaphore \<Rightarrow> 'sem limited_system \<Rightarrow> 'sem limited_system \<Rightarrow> bool"
  for X :: "'sem semaphore" where
  take_request:
    "u32_try_from (length raw) \<noteq> None \<Longrightarrow> acquire_request X (relay s) = Some st \<Longrightarrow>
     limited_step X s (s\<lparr>relay := st, calls := add_mset (HoldsRequest raw) (calls s)\<rparr>)"
| take_payload:
    "HoldsRequest raw \<in># calls s \<Longrightarrow> acquire_payload X (permits raw) (relay s) = Some st \<Longrightarrow>
     limited_step X s (s\<lparr>relay := st, calls := add_mset (InAdapter raw) (calls s - {#HoldsRequest raw#})\<rparr>)"
| refuse_payload:
    "HoldsRequest raw \<in># calls s \<Longrightarrow> acquire_payload X (permits raw) (relay s) = None \<Longrightarrow>
     limited_step X s (s\<lparr>relay := drop_request X (relay s), calls := calls s - {#HoldsRequest raw#}\<rparr>)"
| finish_call:
    "InAdapter raw \<in># calls s \<Longrightarrow>
     limited_step X s (s\<lparr>relay := drop_request X (drop_payload X (permits raw) (relay s)),
                         calls := calls s - {#InAdapter raw#}\<rparr>)"

subsection \<open>The permits are an admission\<close>

text \<open>
  The tickets a call holds: one for its slot, one for its bytes. Each of them is admitted and
  released on its own semaphore, and the semaphores account for the tickets held.
\<close>

datatype ticket = Slot | Bytes u32

fun admit_ticket :: "'sem semaphore \<Rightarrow> 'sem limited_relay \<Rightarrow> ticket \<Rightarrow> 'sem limited_relay option" where
  "admit_ticket X st Slot = acquire_request X st"
| "admit_ticket X st (Bytes n) = acquire_payload X n st"

fun release_ticket :: "'sem semaphore \<Rightarrow> 'sem limited_relay \<Rightarrow> ticket \<Rightarrow> 'sem limited_relay" where
  "release_ticket X st Slot = drop_request X st"
| "release_ticket X st (Bytes n) = drop_payload X n st"

fun slots_of :: "ticket \<Rightarrow> nat" where
  "slots_of Slot = 1"
| "slots_of (Bytes n) = 0"

fun bytes_of :: "ticket \<Rightarrow> nat" where
  "bytes_of Slot = 0"
| "bytes_of (Bytes n) = unat n"

definition tickets_held :: "'sem semaphore \<Rightarrow> nat \<Rightarrow> nat \<Rightarrow> 'sem limited_relay \<Rightarrow> ticket multiset \<Rightarrow> bool" where
  "tickets_held X limit budget st M \<longleftrightarrow> semaphore_laws X
     \<and> sem_available X (requests st) + sum_mset (image_mset slots_of M) = limit
     \<and> sem_available X (payload_bytes st) + sum_mset (image_mset bytes_of M) = budget"

lemma sum_image_remove:
  "r \<in># M \<Longrightarrow> sum_mset (image_mset f (M - {#r#})) + f r = (sum_mset (image_mset f M) :: nat)"
  by (metis add.commute image_mset_add_mset insert_DiffM sum_mset.insert)

interpretation limiter: admission "admit_ticket X" "release_ticket X" "tickets_held X limit budget"
  for X :: "'sem semaphore" and limit budget
proof unfold_locales
  fix st st' :: "'sem limited_relay" and M r
  assume held: "tickets_held X limit budget st M" and "admit_ticket X st r = Some st'"
  then show "tickets_held X limit budget st' (add_mset r M)"
    by (cases r) (auto simp: tickets_held_def acquire_request_def acquire_payload_def
        dest!: semaphore_try_SomeD)
next
  fix st :: "'sem limited_relay" and M r
  assume held: "tickets_held X limit budget st M" and "r \<in># M"
  then show "tickets_held X limit budget (release_ticket X st r) (M - {#r#})"
    using sum_image_remove [of r M slots_of] sum_image_remove [of r M bytes_of]
    by (cases r) (auto simp: tickets_held_def drop_request_def drop_payload_def semaphore_add)
qed

subsection \<open>Every interleaving of calls\<close>

fun raw_of :: "limited_call \<Rightarrow> rstr" where
  "raw_of (HoldsRequest raw) = raw"
| "raw_of (InAdapter raw) = raw"

fun call_tickets :: "limited_call \<Rightarrow> ticket multiset" where
  "call_tickets (HoldsRequest raw) = {#Slot#}"
| "call_tickets (InAdapter raw) = {#Slot, Bytes (permits raw)#}"

definition tickets_of :: "limited_call multiset \<Rightarrow> ticket multiset" where
  "tickets_of C = sum_mset (image_mset call_tickets C)"

fun adapter_bytes :: "limited_call \<Rightarrow> nat" where
  "adapter_bytes (HoldsRequest raw) = 0"
| "adapter_bytes (InAdapter raw) = length raw"

lemma tickets_of_add [simp]: "tickets_of (add_mset c C) = call_tickets c + tickets_of C"
  by (simp add: tickets_of_def)

lemma tickets_of_remove: "c \<in># C \<Longrightarrow> tickets_of C = call_tickets c + tickets_of (C - {#c#})"
  by (metis insert_DiffM tickets_of_add)

lemma unat_permits: "u32_try_from (length raw) \<noteq> None \<Longrightarrow> unat (permits raw) = length raw"
  by (auto simp: permits_def dest: u32_try_from_SomeD)

text \<open>The permits that are taken are those of the calls inside.\<close>

definition limited_inv :: "'sem semaphore \<Rightarrow> nat \<Rightarrow> nat \<Rightarrow> 'sem limited_system \<Rightarrow> bool" where
  "limited_inv X limit budget s \<longleftrightarrow>
     tickets_held X limit budget (relay s) (tickets_of (calls s))
     \<and> (\<forall>c \<in># calls s. u32_try_from (length (raw_of c)) \<noteq> None)"

lemma limited_inv_start:
  "semaphore_laws X \<Longrightarrow>
     limited_inv X (unat (broadcast_limit_get limit)) (unat budget)
       \<lparr>relay = with_payload_budget X limit budget, calls = {#}\<rparr>"
  by (simp add: limited_inv_def tickets_held_def tickets_of_def with_payload_budget_def semaphore_new)

lemma limited_inv_step:
  assumes "limited_step X s t" "limited_inv X limit budget s"
  shows "limited_inv X limit budget t"
  using assms
proof (induction rule: limited_step.induct)
  case (take_request raw s st)
  then show ?case
    using limiter.admit_holds [of X limit budget "relay s" "tickets_of (calls s)" Slot st]
    by (auto simp: limited_inv_def)
next
  case (take_payload raw s st)
  then show ?case
    using limiter.admit_holds [of X limit budget "relay s" "tickets_of (calls s)" "Bytes (permits raw)" st]
    by (auto simp: limited_inv_def tickets_of_remove [of "HoldsRequest raw"] add_mset_commute
        dest: in_diffD)
next
  case (refuse_payload raw s)
  then show ?case
    using limiter.release_holds [of X limit budget "relay s" "tickets_of (calls s)" Slot]
    by (auto simp: limited_inv_def tickets_of_remove [of "HoldsRequest raw"] dest: in_diffD)
next
  case (finish_call raw s)
  let ?rest = "tickets_of (calls s - {#InAdapter raw#})"
  have all: "tickets_of (calls s) = add_mset (Bytes (permits raw)) (add_mset Slot ?rest)"
    using tickets_of_remove [OF finish_call.hyps] by simp
  have held: "tickets_held X limit budget (relay s) (add_mset (Bytes (permits raw)) (add_mset Slot ?rest))"
    using finish_call.prems all by (simp add: limited_inv_def)
  from limiter.release_holds [OF held, of "Bytes (permits raw)"]
  have "tickets_held X limit budget (drop_payload X (permits raw) (relay s)) (add_mset Slot ?rest)"
    by simp
  from limiter.release_holds [OF this, of Slot] finish_call.prems show ?case
    by (auto simp: limited_inv_def dest: in_diffD)
qed

lemma slots_of_calls: "sum_mset (image_mset slots_of (tickets_of C)) = size C"
proof (induction C)
  case (add c C)
  then show ?case by (cases c) auto
qed (simp add: tickets_of_def)

lemma bytes_of_calls:
  "\<forall>c \<in># C. u32_try_from (length (raw_of c)) \<noteq> None \<Longrightarrow>
     sum_mset (image_mset bytes_of (tickets_of C)) = sum_mset (image_mset adapter_bytes C)"
proof (induction C)
  case (add c C)
  then show ?case by (cases c) (auto simp: unat_permits)
qed (simp add: tickets_of_def)

lemma limited_inv_account:
  assumes "limited_inv X limit budget s"
  shows "sem_available X (requests (relay s)) + size (calls s) = limit"
    and "sem_available X (payload_bytes (relay s)) + sum_mset (image_mset adapter_bytes (calls s)) = budget"
  using assms slots_of_calls [of "calls s"] bytes_of_calls [of "calls s"]
  by (auto simp: limited_inv_def tickets_held_def)

subsection \<open>One call\<close>

definition has_room :: "'sem semaphore \<Rightarrow> 'sem limited_relay \<Rightarrow> rstr \<Rightarrow> bool" where
  "has_room X st raw \<longleftrightarrow> length raw < 2 ^ 32
     \<and> 1 \<le> sem_available X (requests st) \<and> length raw \<le> sem_available X (payload_bytes st)"

definition same_permits :: "'sem semaphore \<Rightarrow> 'sem limited_relay \<Rightarrow> 'sem limited_relay \<Rightarrow> bool" where
  "same_permits X st st' \<longleftrightarrow> sem_available X (requests st') = sem_available X (requests st)
     \<and> sem_available X (payload_bytes st') = sem_available X (payload_bytes st)"

lemma acquire_request_None:
  "semaphore_laws X \<Longrightarrow> acquire_request X st = None \<longleftrightarrow> sem_available X (requests st) = 0"
  by (auto simp: acquire_request_def semaphore_try_iff)

lemma acquire_payload_None:
  "semaphore_laws X \<Longrightarrow> acquire_payload X n st = None \<longleftrightarrow> sem_available X (payload_bytes st) < unat n"
  by (auto simp: acquire_payload_def semaphore_try_iff)

lemma acquire_request_SomeD:
  "semaphore_laws X \<Longrightarrow> acquire_request X st = Some st' \<Longrightarrow>
     sem_available X (requests st') + 1 = sem_available X (requests st)
     \<and> payload_bytes st' = payload_bytes st"
  by (auto simp: acquire_request_def dest!: semaphore_try_SomeD)

lemma acquire_payload_SomeD:
  "semaphore_laws X \<Longrightarrow> acquire_payload X n st = Some st' \<Longrightarrow>
     sem_available X (payload_bytes st') + unat n = sem_available X (payload_bytes st)
     \<and> requests st' = requests st"
  by (auto simp: acquire_payload_def dest!: semaphore_try_SomeD)

lemma limited_broadcast_refused:
  assumes "semaphore_laws X" "\<not> has_room X st raw"
  shows "\<exists>st'. (\<forall>inner. limited_broadcast X inner raw st = (Inl relay_error_failed, st'))
    \<and> same_permits X st st'"
proof (cases "u32_try_from (length raw)")
  case None
  then show ?thesis by (auto simp: limited_broadcast_def same_permits_def)
next
  case (Some n)
  then have n: "unat n = length raw" "length raw < 2 ^ 32"
    by (auto simp: u32_try_from_SomeD u32_try_from_def split: if_splits)
  show ?thesis
  proof (cases "acquire_request X st")
    case None
    with Some show ?thesis by (auto simp: limited_broadcast_def same_permits_def)
  next
    case (Some st1)
    note st1 = acquire_request_SomeD [OF assms(1) Some]
    have "acquire_payload X n st1 = None"
      using assms n st1 by (auto simp: acquire_payload_None has_room_def)
    moreover have "same_permits X st (drop_request X st1)"
      using st1 by (auto simp: same_permits_def drop_request_def semaphore_add assms(1))
    ultimately show ?thesis
      using Some \<open>u32_try_from (length raw) = Some n\<close> by (auto simp: limited_broadcast_def)
  qed
qed

lemma limited_broadcast_admitted:
  assumes "semaphore_laws X" "has_room X st raw"
  shows "\<exists>st2. sem_available X (requests st2) + 1 = sem_available X (requests st)
    \<and> sem_available X (payload_bytes st2) + length raw = sem_available X (payload_bytes st)
    \<and> (\<forall>inner. fst (limited_broadcast X inner raw st) = fst (inner raw st2)
        \<and> (same_permits X st2 (snd (inner raw st2)) \<longrightarrow>
             same_permits X st (snd (limited_broadcast X inner raw st))))"
proof -
  obtain n where n: "u32_try_from (length raw) = Some n" "unat n = length raw"
    using assms(2) by (auto simp: has_room_def u32_try_from_small u32_try_from_SomeD)
  obtain st1 where st1: "acquire_request X st = Some st1"
    using assms by (cases "acquire_request X st") (auto simp: has_room_def acquire_request_None)
  note st1' = acquire_request_SomeD [OF assms(1) st1]
  obtain st2 where st2: "acquire_payload X n st1 = Some st2"
    using assms n st1' by (cases "acquire_payload X n st1") (auto simp: has_room_def acquire_payload_None)
  note st2' = acquire_payload_SomeD [OF assms(1) st2]
  show ?thesis
    using st1' st2' n st1 st2
    by (intro exI [of _ st2])
      (auto simp: limited_broadcast_def same_permits_def drop_request_def drop_payload_def
        semaphore_add assms(1) split: prod.splits)
qed

subsection \<open>The byte budget of a validated configuration\<close>

lemma adapter_bytes_le:
  assumes "\<forall>c \<in># C. length (raw_of c) \<le> m"
  shows "sum_mset (image_mset adapter_bytes C) \<le> size C * m"
  using assms
proof (induction C)
  case (add c C)
  then show ?case by (cases c) auto
qed simp

text \<open>
  As long as no transaction is longer than a frame, a call that got its slot gets its bytes: the
  bytes of the others and its own are at most the number of slots times the frame limit.
\<close>

lemma budget_suffices:
  assumes "config_bounded cfg" "semaphore_laws X"
    and inv: "limited_inv X (unat (broadcast_limit_get (max_concurrent_broadcasts cfg)))
      (unat MAX_CONFIGURABLE_IN_FLIGHT_BROADCAST_BYTES) s"
    and "\<forall>c \<in># calls s. length (raw_of c) \<le> unat (max_frame_bytes cfg)"
    and "HoldsRequest raw \<in># calls s"
  shows "acquire_payload X (permits raw) (relay s) \<noteq> None"
proof -
  let ?m = "unat (max_frame_bytes cfg)"
  let ?rest = "calls s - {#HoldsRequest raw#}"
  note account = limited_inv_account [OF inv]
  have "sum_mset (image_mset adapter_bytes (calls s)) = sum_mset (image_mset adapter_bytes ?rest)"
    using sum_image_remove [OF assms(5), of adapter_bytes] by simp
  also have "\<dots> \<le> size ?rest * ?m"
    using assms(4) by (intro adapter_bytes_le) (auto dest: in_diffD)
  finally have "sum_mset (image_mset adapter_bytes (calls s)) + ?m \<le> size (calls s) * ?m"
    using insert_DiffM [OF assms(5)] by (metis add.commute mult_Suc nat_add_left_cancel_le size_add_mset)
  also have "\<dots> \<le> unat (broadcast_limit_get (max_concurrent_broadcasts cfg)) * ?m"
    using account(1) by (intro mult_le_mono1) simp
  also have "\<dots> \<le> unat MAX_CONFIGURABLE_IN_FLIGHT_BROADCAST_BYTES"
    using assms(1) by (simp add: config_bounded_def)
  finally have "?m \<le> sem_available X (payload_bytes (relay s))" using account(2) by linarith
  moreover have "unat (permits raw) \<le> ?m"
    using assms(4,5) inv by (subst unat_permits) (auto simp: limited_inv_def)
  ultimately show ?thesis by (simp add: acquire_payload_None assms(2))
qed

end
