(* ===== verification/Draining.thy ===== *)
theory Draining
  imports Admission Relay
begin

text \<open>
  \<open>src/relay/draining.rs\<close>: the gate in front of the relay that shutdown closes. Its state is
  a flag and a counter under a mutex, and a watch channel on which the counter is published
  after the mutex is released. Each critical section is one operation (\<open>enter_call\<close>,
  \<open>leave_call\<close>, \<open>stop_accepting\<close>) and each publication another (\<open>publish\<close>);
  \<open>draining_broadcast\<close>, \<open>drop_active_call\<close> and \<open>begin_shutdown\<close> put them together the way
  one thread runs them, and \<open>drain_step\<close> interleaves them between threads.

  The lemmas show that the counter is the number of admitted calls in every interleaving and
  that nothing is admitted after the gate is closed. They also show what the order of the
  publications does to \<open>wait_for_idle\<close>.
\<close>

record drain_state =
  accepting :: bool
  active :: usize

record 'w shared_drain_state =
  drain :: drain_state
  active_watch :: 'w

definition draining_new :: "'w watch_channel \<Rightarrow> 'w shared_drain_state" where
  "draining_new X = \<lparr>drain = \<lparr>accepting = True, active = 0\<rparr>, active_watch = watch_new X 0\<rparr>"

definition publish :: "'w watch_channel \<Rightarrow> usize \<Rightarrow> 'w shared_drain_state \<Rightarrow> 'w shared_drain_state" where
  "publish X n sh = sh\<lparr>active_watch := watch_send_replace X (active_watch sh) n\<rparr>"

definition enter_call :: "'w shared_drain_state \<Rightarrow> relay_error + (usize \<times> 'w shared_drain_state)" where
  "enter_call sh =
     (if \<not> accepting (drain sh) then Inl relay_error_failed
      else try_bind (ok_or relay_error_failed (checked_add (active (drain sh)) 1)) (\<lambda>n.
        Inr (n, sh\<lparr>drain := (drain sh)\<lparr>active := n\<rparr>\<rparr>)))"

definition leave_call :: "'w shared_drain_state \<Rightarrow> usize \<times> 'w shared_drain_state" where
  "leave_call sh =
     (let n = (if active (drain sh) > 0 then active (drain sh) - 1 else active (drain sh))
      in (n, sh\<lparr>drain := (drain sh)\<lparr>active := n\<rparr>\<rparr>))"

definition stop_accepting :: "'w shared_drain_state \<Rightarrow> usize \<times> 'w shared_drain_state" where
  "stop_accepting sh = (active (drain sh), sh\<lparr>drain := (drain sh)\<lparr>accepting := False\<rparr>\<rparr>)"

definition begin_shutdown :: "'w watch_channel \<Rightarrow> 'w shared_drain_state \<Rightarrow> usize \<times> 'w shared_drain_state" where
  "begin_shutdown X sh = (let (n, sh') = stop_accepting sh in (n, publish X n sh'))"

definition drop_active_call :: "'w watch_channel \<Rightarrow> 'w shared_drain_state \<Rightarrow> 'w shared_drain_state" where
  "drop_active_call X sh = (let (n, sh') = leave_call sh in publish X n sh')"

definition draining_broadcast ::
  "'w watch_channel \<Rightarrow> (rstr \<Rightarrow> 'w shared_drain_state \<Rightarrow> relay_outcome \<times> 'w shared_drain_state)
     \<Rightarrow> rstr \<Rightarrow> 'w shared_drain_state \<Rightarrow> relay_outcome \<times> 'w shared_drain_state" where
  "draining_broadcast X inner raw_transaction sh =
     (case enter_call sh of
        Inl e \<Rightarrow> (Inl e, sh)
      | Inr (n, sh1) \<Rightarrow>
          (let (outcome, sh2) = inner raw_transaction (publish X n sh1)
           in (outcome, drop_active_call X sh2)))"

definition active_calls :: "'w shared_drain_state \<Rightarrow> usize" where
  "active_calls sh = active (drain sh)"

definition is_accepting :: "'w shared_drain_state \<Rightarrow> bool" where
  "is_accepting sh = accepting (drain sh)"

text \<open>
  What a waiting receiver observes: the values it reads after each change, or that the sender
  is gone. The wait ends with \<open>false\<close> when the observations end before the timeout does.
\<close>

datatype watch_event = Changed usize | SenderGone

fun wait_loop :: "watch_event list \<Rightarrow> bool" where
  "wait_loop [] = False"
| "wait_loop (SenderGone # es) = False"
| "wait_loop (Changed n # es) = (if n = 0 then True else wait_loop es)"

definition wait_for_idle :: "'w watch_channel \<Rightarrow> 'w shared_drain_state \<Rightarrow> watch_event list \<Rightarrow> bool" where
  "wait_for_idle X sh es = (if watch_borrow X (active_watch sh) = 0 then True else wait_loop es)"

subsection \<open>Any number of threads\<close>

text \<open>
  A thread that has left a critical section carries the number it is about to publish. A call
  is admitted from the critical section of \<open>broadcast\<close> to the one of the drop.
\<close>

datatype drain_task =
    PublishEntry usize rstr
  | InInner rstr
  | PublishExit usize
  | PublishStop usize

fun admitted_call :: "drain_task \<Rightarrow> rstr list" where
  "admitted_call (PublishEntry n raw) = [raw]"
| "admitted_call (InInner raw) = [raw]"
| "admitted_call (PublishExit n) = []"
| "admitted_call (PublishStop n) = []"

record 'w drain_system =
  shared :: "'w shared_drain_state"
  drain_tasks :: "drain_task multiset"

definition admitted :: "drain_task multiset \<Rightarrow> rstr multiset" where
  "admitted T = sum_mset (image_mset (\<lambda>t. mset (admitted_call t)) T)"

inductive drain_step :: "'w watch_channel \<Rightarrow> 'w drain_system \<Rightarrow> 'w drain_system \<Rightarrow> bool"
  for X :: "'w watch_channel" where
  admit:
    "enter_call (shared s) = Inr (n, sh) \<Longrightarrow>
     drain_step X s (s\<lparr>shared := sh, drain_tasks := add_mset (PublishEntry n raw) (drain_tasks s)\<rparr>)"
| publish_entry:
    "PublishEntry n raw \<in># drain_tasks s \<Longrightarrow>
     drain_step X s (s\<lparr>shared := publish X n (shared s),
       drain_tasks := add_mset (InInner raw) (drain_tasks s - {#PublishEntry n raw#})\<rparr>)"
| leave:
    "InInner raw \<in># drain_tasks s \<Longrightarrow> leave_call (shared s) = (n, sh) \<Longrightarrow>
     drain_step X s (s\<lparr>shared := sh,
       drain_tasks := add_mset (PublishExit n) (drain_tasks s - {#InInner raw#})\<rparr>)"
| publish_exit:
    "PublishExit n \<in># drain_tasks s \<Longrightarrow>
     drain_step X s (s\<lparr>shared := publish X n (shared s), drain_tasks := drain_tasks s - {#PublishExit n#}\<rparr>)"
| stop:
    "stop_accepting (shared s) = (n, sh) \<Longrightarrow>
     drain_step X s (s\<lparr>shared := sh, drain_tasks := add_mset (PublishStop n) (drain_tasks s)\<rparr>)"
| publish_stop:
    "PublishStop n \<in># drain_tasks s \<Longrightarrow>
     drain_step X s (s\<lparr>shared := publish X n (shared s), drain_tasks := drain_tasks s - {#PublishStop n#}\<rparr>)"

definition drain_init :: "'w watch_channel \<Rightarrow> 'w drain_system" where
  "drain_init X = \<lparr>shared = draining_new X, drain_tasks = {#}\<rparr>"

abbreviation drain_steps :: "'w watch_channel \<Rightarrow> 'w drain_system \<Rightarrow> 'w drain_system \<Rightarrow> bool" where
  "drain_steps X \<equiv> (drain_step X)\<^sup>*\<^sup>*"

subsection \<open>The counter is an admission\<close>

definition admit_active :: "'w shared_drain_state \<Rightarrow> rstr \<Rightarrow> 'w shared_drain_state option" where
  "admit_active sh raw = (case enter_call sh of Inl e \<Rightarrow> None | Inr (n, sh') \<Rightarrow> Some sh')"

definition release_active :: "'w shared_drain_state \<Rightarrow> rstr \<Rightarrow> 'w shared_drain_state" where
  "release_active sh raw = snd (leave_call sh)"

definition counts :: "'w shared_drain_state \<Rightarrow> rstr multiset \<Rightarrow> bool" where
  "counts sh M \<longleftrightarrow> unat (active (drain sh)) = size M"

lemma enter_call_Inr:
  "enter_call sh = Inr (n, sh') \<longleftrightarrow>
     accepting (drain sh) \<and> checked_add (active (drain sh)) 1 = Some n
     \<and> sh' = sh\<lparr>drain := (drain sh)\<lparr>active := n\<rparr>\<rparr>"
  by (auto simp: enter_call_def try_bind_eq_Inr ok_or_def split: option.splits)

lemma unat_pred: "(0 :: usize) < n \<Longrightarrow> unat (n - 1) = unat n - 1"
  using unat_sub [of 1 n] by (simp add: word_le_nat_alt word_less_nat_alt)

interpretation gate: admission admit_active release_active counts
proof unfold_locales
  fix sh sh' :: "'w shared_drain_state" and M r
  assume "counts sh M" "admit_active sh r = Some sh'"
  then show "counts sh' (add_mset r M)"
    by (auto simp: counts_def admit_active_def enter_call_Inr rust_int split: sum.splits
        dest!: checked_add_SomeD)
next
  fix sh :: "'w shared_drain_state" and M r
  assume "counts sh M" "r \<in># M"
  moreover then have "0 < active (drain sh)"
    by (auto simp: counts_def word_greater_zero_iff dest: multi_member_split)
  ultimately show "counts (release_active sh r) (M - {#r#})"
    by (auto simp: counts_def release_active_def leave_call_def unat_pred Let_def size_Diff_singleton)
qed

subsection \<open>Every interleaving\<close>

lemma admitted_add [simp]: "admitted (add_mset t T) = mset (admitted_call t) + admitted T"
  by (simp add: admitted_def)

lemma admitted_remove: "t \<in># T \<Longrightarrow> admitted T = mset (admitted_call t) + admitted (T - {#t#})"
  by (metis admitted_add insert_DiffM)

definition drain_inv :: "'w drain_system \<Rightarrow> bool" where
  "drain_inv s \<longleftrightarrow> counts (shared s) (admitted (drain_tasks s))"

lemma counts_publish [simp]: "counts (publish X n sh) M \<longleftrightarrow> counts sh M"
  by (simp add: counts_def publish_def)

lemma drain_inv_step:
  assumes "drain_step X s t" "drain_inv s"
  shows "drain_inv t"
  using assms
proof (induction rule: drain_step.induct)
  case (admit s n sh raw)
  then show ?case
    using gate.admit_holds [of "shared s" "admitted (drain_tasks s)" raw sh]
    by (simp add: drain_inv_def admit_active_def)
next
  case (publish_entry n raw s)
  then show ?case by (simp add: drain_inv_def admitted_remove [of "PublishEntry n raw"])
next
  case (leave raw s n sh)
  then show ?case
    using gate.release_holds [of "shared s" "admitted (drain_tasks s)" raw]
    by (simp add: drain_inv_def release_active_def admitted_remove [of "InInner raw"])
next
  case (publish_exit n s)
  then show ?case by (simp add: drain_inv_def admitted_remove [of "PublishExit n"])
next
  case (stop s n sh)
  then show ?case by (auto simp: drain_inv_def counts_def stop_accepting_def)
next
  case (publish_stop n s)
  then show ?case by (simp add: drain_inv_def admitted_remove [of "PublishStop n"])
qed

lemma drain_steps_inv: "drain_steps X s t \<Longrightarrow> drain_inv s \<Longrightarrow> drain_inv t"
  by (induction rule: rtranclp_induct) (auto intro: drain_inv_step)

lemma drain_inv_init: "drain_inv (drain_init X)"
  by (simp add: drain_inv_def drain_init_def draining_new_def counts_def admitted_def)

text \<open>A closed gate stays closed, and the calls inside can only become fewer.\<close>

lemma closed_step:
  assumes "drain_step X s t" "\<not> is_accepting (shared s)"
  shows "\<not> is_accepting (shared t) \<and> admitted (drain_tasks t) \<subseteq># admitted (drain_tasks s)"
  using assms
proof (induction rule: drain_step.induct)
  case (admit s n sh raw)
  then show ?case by (simp add: enter_call_def is_accepting_def)
next
  case (publish_entry n raw s)
  then show ?case
    by (simp add: publish_def is_accepting_def admitted_remove [of "PublishEntry n raw"])
next
  case (leave raw s n sh)
  then show ?case
    by (auto simp: leave_call_def Let_def is_accepting_def admitted_remove [of "InInner raw"])
next
  case (publish_exit n s)
  then show ?case by (simp add: publish_def is_accepting_def admitted_remove [of "PublishExit n"])
next
  case (stop s n sh)
  then show ?case by (auto simp: stop_accepting_def is_accepting_def)
next
  case (publish_stop n s)
  then show ?case by (simp add: publish_def is_accepting_def admitted_remove [of "PublishStop n"])
qed

lemma closed_steps:
  assumes "drain_steps X s t" "\<not> is_accepting (shared s)"
  shows "\<not> is_accepting (shared t) \<and> admitted (drain_tasks t) \<subseteq># admitted (drain_tasks s)"
  using assms
proof (induction rule: rtranclp_induct)
  case (step t u)
  then show ?case using closed_step [of X t u] by (auto intro: subset_mset.order_trans)
qed simp

subsection \<open>One thread\<close>

text \<open>
  Run without interruption between a critical section and its publication, the published value
  is the counter.
\<close>

definition published :: "'w watch_channel \<Rightarrow> 'w shared_drain_state \<Rightarrow> bool" where
  "published X sh \<longleftrightarrow> watch_borrow X (active_watch sh) = active (drain sh)"

lemma published_ops:
  assumes "watch_laws X"
  shows "published X (draining_new X)"
    and "published X (snd (begin_shutdown X sh))"
    and "published X (drop_active_call X sh)"
    and "enter_call sh = Inr (n, sh') \<Longrightarrow> published X (publish X n sh')"
  using assms
  by (auto simp: published_def draining_new_def begin_shutdown_def stop_accepting_def
      drop_active_call_def leave_call_def publish_def enter_call_Inr watch_laws_def Let_def)

lemma wait_loop_iff: "wait_loop es \<longleftrightarrow> (\<exists>ns us. es = map Changed ns @ Changed 0 # us)"
proof (induction es)
  case (Cons e es)
  show ?case
  proof (cases e)
    case (Changed n)
    have "wait_loop (e # es) \<longleftrightarrow> n = 0 \<or> wait_loop es" using Changed by simp
    also have "\<dots> \<longleftrightarrow> (\<exists>ns us. e # es = map Changed ns @ Changed 0 # us)"
      unfolding Cons.IH Changed by (auto simp: Cons_eq_append_conv Cons_eq_map_conv)
    finally show ?thesis .
  next
    case SenderGone
    then show ?thesis by (auto simp: Cons_eq_append_conv Cons_eq_map_conv)
  qed
qed simp

lemma draining_broadcast_closed:
  "\<not> is_accepting sh \<Longrightarrow> draining_broadcast X inner raw sh = (Inl relay_error_failed, sh)"
  by (simp add: draining_broadcast_def enter_call_def is_accepting_def)

text \<open>
  A run of three threads on a cell as the channel: a first call leaves, and before it publishes
  the zero it read, a second call is admitted and the gate is closed.
\<close>

definition late_zero :: "usize drain_system" where
  "late_zero = \<lparr>shared = \<lparr>drain = \<lparr>accepting = False, active = 1\<rparr>, active_watch = 0\<rparr>,
                drain_tasks = {#InInner ''bb''#}\<rparr>"

lemma late_zero_reachable: "drain_steps cell_watch (drain_init cell_watch) late_zero"
proof -
  let ?X = cell_watch
  let ?sys = "\<lambda>acc n w T. \<lparr>shared = \<lparr>drain = \<lparr>accepting = acc, active = n\<rparr>, active_watch = w\<rparr>, drain_tasks = T\<rparr>"
  have a: "drain_step ?X (?sys True 0 0 {#}) (?sys True 1 0 {#PublishEntry 1 ''aa''#})"
    using drain_step.admit [of "?sys True 0 0 {#}" _ _ ?X "''aa''"] by (simp add: enter_call_Inr checked_add_def)
  have b: "drain_step ?X (?sys True 1 0 {#PublishEntry 1 ''aa''#}) (?sys True 1 1 {#InInner ''aa''#})"
    using drain_step.publish_entry [of 1 "''aa''" "?sys True 1 0 {#PublishEntry 1 ''aa''#}" ?X]
    by (simp add: publish_def cell_watch_def)
  have c: "drain_step ?X (?sys True 1 1 {#InInner ''aa''#}) (?sys True 0 1 {#PublishExit 0#})"
    using drain_step.leave [of "''aa''" "?sys True 1 1 {#InInner ''aa''#}" _ _ ?X] by (simp add: leave_call_def)
  have d: "drain_step ?X (?sys True 0 1 {#PublishExit 0#}) (?sys True 1 1 {#PublishEntry 1 ''bb'', PublishExit 0#})"
    using drain_step.admit [of "?sys True 0 1 {#PublishExit 0#}" _ _ ?X "''bb''"] by (simp add: enter_call_Inr checked_add_def)
  have e: "drain_step ?X (?sys True 1 1 {#PublishEntry 1 ''bb'', PublishExit 0#}) (?sys True 1 1 {#InInner ''bb'', PublishExit 0#})"
    using drain_step.publish_entry [of 1 "''bb''" "?sys True 1 1 {#PublishEntry 1 ''bb'', PublishExit 0#}" ?X]
    by (simp add: publish_def cell_watch_def)
  have f: "drain_step ?X (?sys True 1 1 {#InInner ''bb'', PublishExit 0#})
      (?sys False 1 1 {#PublishStop 1, InInner ''bb'', PublishExit 0#})"
    using drain_step.stop [of "?sys True 1 1 {#InInner ''bb'', PublishExit 0#}" _ _ ?X] by (simp add: stop_accepting_def)
  have g: "drain_step ?X (?sys False 1 1 {#PublishStop 1, InInner ''bb'', PublishExit 0#})
      (?sys False 1 1 {#InInner ''bb'', PublishExit 0#})"
    using drain_step.publish_stop [of 1 "?sys False 1 1 {#PublishStop 1, InInner ''bb'', PublishExit 0#}" ?X]
    by (simp add: publish_def cell_watch_def)
  have h: "drain_step ?X (?sys False 1 1 {#InInner ''bb'', PublishExit 0#}) late_zero"
    using drain_step.publish_exit [of 0 "?sys False 1 1 {#InInner ''bb'', PublishExit 0#}" ?X]
    by (simp add: publish_def cell_watch_def late_zero_def)
  have init: "drain_init ?X = ?sys True 0 0 {#}"
    by (simp add: drain_init_def draining_new_def cell_watch_def)
  show ?thesis unfolding init
    using a b c d e f g h by (meson converse_rtranclp_into_rtranclp rtranclp.rtrancl_refl)
qed

subsection \<open>Properties of the gate\<close>

text \<open>
  The counter is exact in every interleaving. In every reachable state of any number of
  calls and shutdowns, \<open>active_calls\<close> is the number of calls that have been admitted and have
  not left; it neither saturates below nor wraps above.
\<close>

lemma drain_counts_calls:
  assumes "drain_steps X (drain_init X) s"
  shows "unat (active_calls (shared s)) = size (admitted (drain_tasks s))"
  using drain_steps_inv [OF assms drain_inv_init]
  by (simp add: drain_inv_def counts_def active_calls_def)

text \<open>
  Nothing is admitted after shutdown began. From a state in which the gate is closed, every
  interleaving keeps it closed, the admitted calls are among those admitted before, and a call
  that arrives gets the failure error without the relay inside being called and without a
  change of the state.
\<close>

lemma drain_gate_closed:
  assumes "\<not> is_accepting (shared s)" "drain_steps X s t"
  shows "\<not> is_accepting (shared t)
    \<and> admitted (drain_tasks t) \<subseteq># admitted (drain_tasks s)
    \<and> (\<forall>inner raw. draining_broadcast X inner raw (shared t) = (Inl relay_error_failed, shared t))"
  using closed_steps [OF assms(2,1)] by (simp add: draining_broadcast_closed)

text \<open>
  One thread's shutdown is as documented. \<open>begin_shutdown\<close> closes the gate, keeps and
  returns the number of active calls, and a wait that starts then succeeds precisely when that
  number is zero or a zero is observed before the sender is gone or the time is over.
\<close>

lemma begin_shutdown_then_wait:
  assumes "watch_laws X" "begin_shutdown X sh = (n, sh')"
  shows "n = active_calls sh \<and> active_calls sh' = n \<and> \<not> is_accepting sh'
    \<and> (wait_for_idle X sh' es \<longleftrightarrow> n = 0 \<or> (\<exists>ns us. es = map Changed ns @ Changed 0 # us))"
proof -
  have sh': "n = active_calls sh \<and> active_calls sh' = n \<and> \<not> is_accepting sh'"
    using assms(2)
    by (auto simp: begin_shutdown_def stop_accepting_def publish_def active_calls_def is_accepting_def)
  moreover have "published X sh'"
    using published_ops(2) [OF assms(1), of sh] assms(2) by simp
  ultimately show ?thesis
    by (auto simp: wait_for_idle_def published_def active_calls_def simp flip: wait_loop_iff)
qed

text \<open>
  C31: the publication of the counter is outside the mutex, and two threads can publish in the
  wrong order. There is a reachable state in which the gate is closed, a call admitted before is
  still in the relay, nothing is left to publish, and \<open>wait_for_idle\<close> returns true at once.
\<close>

theorem wait_for_idle_late_zero:
  "\<exists>s. drain_steps cell_watch (drain_init cell_watch) s
     \<and> \<not> is_accepting (shared s) \<and> drain_tasks s = {#InInner ''bb''#} \<and> active_calls (shared s) = 1
     \<and> wait_for_idle cell_watch (shared s) []"
  using late_zero_reachable
  by (intro exI [of _ late_zero])
    (simp add: late_zero_def is_accepting_def active_calls_def wait_for_idle_def cell_watch_def)

end
