(* ===== verification/Socks_Electrum.thy ===== *)
theory Socks_Electrum
  imports Relay Framing
begin

text \<open>
  \<open>src/relay/socks_electrum.rs\<close>: the adapter that sends a transaction to an Electrum endpoint
  through a SOCKS5 proxy. The network is the argument \<open>socks_env\<close>: what the connection
  through the proxy answers, what the write of the request answers, and the byte stream that
  comes back, each with the time it takes. A run is its outcome, the actions it took on the
  network in their order and the time it spent.
\<close>

definition RELAY_REQUEST_ID :: rstr where
  "RELAY_REQUEST_ID = ''electrum-private-relay''"

definition MAX_RELAY_RESPONSE_BYTES :: nat where
  "MAX_RELAY_RESPONSE_BYTES = 64 * 1024"

record socks_electrum_relay =
  sx_socks5_proxy :: socket_addr
  sx_endpoint :: endpoint
  sx_timeout :: duration

definition socks_electrum_new :: "socket_addr \<Rightarrow> endpoint \<Rightarrow> duration \<Rightarrow> socks_electrum_relay" where
  "socks_electrum_new proxy e t = \<lparr>sx_socks5_proxy = proxy, sx_endpoint = e, sx_timeout = t\<rparr>"

record socks_env =
  env_connect :: "socket_addr \<Rightarrow> rstr \<times> u16 \<Rightarrow> (unit option) timed"
  env_write :: "bytes \<Rightarrow> (unit option) timed"
  env_read :: "byte_stream timed"

datatype relay_action = Connect socket_addr "rstr \<times> u16" | WriteAll bytes | ReadLine nat

record relay_run =
  run_outcome :: relay_outcome
  run_actions :: "relay_action list"
  run_nanos :: nat

definition relay_request :: "serde \<Rightarrow> rstr \<Rightarrow> bytes option" where
  "relay_request S raw_transaction =
     map_option (\<lambda>request. request @ [newline])
       (to_vec S (Object [(''id'', String RELAY_REQUEST_ID),
                          (''method'', String ''blockchain.transaction.broadcast''),
                          (''params'', Array [String raw_transaction])]))"

text \<open>The checks on the line that was read, and the identifier that is returned.\<close>

definition relay_result :: "serde \<Rightarrow> bytes \<Rightarrow> relay_outcome" where
  "relay_result S response =
     (if length response = 0 \<or> length response > MAX_RELAY_RESPONSE_BYTES \<or> \<not> ends_with newline response
      then Inl relay_error_failed
      else try_bind (ok_or relay_error_failed (from_slice_response S response)) (\<lambda>response.
        if as_str (resp_id response) \<noteq> Some RELAY_REQUEST_ID \<or> resp_error response \<noteq> None
        then Inl relay_error_failed
        else try_bind
          (ok_or relay_error_failed
            (case Option.bind (resp_result response) as_str of
               Some candidate \<Rightarrow>
                 if length candidate = 64 \<and> list_all is_ascii_hexdigit candidate then Some candidate else None
             | None \<Rightarrow> None))
          (\<lambda>transaction_id. Inr (to_ascii_lowercase transaction_id))))"

fun map_timed :: "('a \<Rightarrow> 'b) \<Rightarrow> 'a timed \<Rightarrow> 'b timed" where
  "map_timed f Never = Never"
| "map_timed f (After t x) = After t (f x)"

definition socks_broadcast :: "serde \<Rightarrow> socks_electrum_relay \<Rightarrow> socks_env \<Rightarrow> rstr \<Rightarrow> relay_run" where
  "socks_broadcast S self env raw_transaction =
     (let target = (host (sx_endpoint self), port (sx_endpoint self));
          connect = Connect (sx_socks5_proxy self) target;
          (t1, stream) = timeout (sx_timeout self) (env_connect env (sx_socks5_proxy self) target);
          failed = (\<lambda>actions t. \<lparr>run_outcome = Inl relay_error_failed, run_actions = actions, run_nanos = t\<rparr>)
      in if stream \<noteq> Some (Some ()) then failed [connect] t1
         else (case relay_request S raw_transaction of
           None \<Rightarrow> failed [connect] t1
         | Some request \<Rightarrow>
             (let (t2, written) = timeout (sx_timeout self) (env_write env request)
              in if written \<noteq> Some (Some ()) then failed [connect, WriteAll request] (t1 + t2)
                 else (let limit = MAX_RELAY_RESPONSE_BYTES + 1;
                           (t3, line) = timeout (sx_timeout self) (map_timed (take_read_until limit) (env_read env));
                           actions = [connect, WriteAll request, ReadLine limit]
                       in case line of
                            Some (Inr (response, rest)) \<Rightarrow>
                              \<lparr>run_outcome = relay_result S response, run_actions = actions,
                               run_nanos = t1 + t2 + t3\<rparr>
                          | _ \<Rightarrow> failed actions (t1 + t2 + t3)))))"

subsection \<open>The response\<close>

lemma transaction_id_lower: "transaction_id t \<Longrightarrow> transaction_id (to_ascii_lowercase t)"
  by (auto simp: transaction_id_def to_ascii_lowercase_def list_all_iff is_ascii_hexdigit_lower)

definition good_response :: "serde \<Rightarrow> bytes \<Rightarrow> rstr \<Rightarrow> bool" where
  "good_response S line candidate \<longleftrightarrow>
     line \<noteq> [] \<and> length line \<le> MAX_RELAY_RESPONSE_BYTES \<and> last line = newline
     \<and> from_slice_response S line =
         Some \<lparr>resp_id = String RELAY_REQUEST_ID, resp_result = Some (String candidate), resp_error = None\<rparr>
     \<and> transaction_id candidate"

lemma as_str_Some: "as_str v = Some s \<longleftrightarrow> v = String s"
  by (cases v) auto

lemma relay_result_Inr:
  "relay_result S line = Inr t \<longleftrightarrow> (\<exists>candidate. good_response S line candidate \<and> t = to_ascii_lowercase candidate)"
proof (cases "from_slice_response S line")
  case None
  then show ?thesis by (auto simp: relay_result_def good_response_def)
next
  case (Some r)
  then show ?thesis
    unfolding relay_result_def good_response_def transaction_id_def ends_with_def
    by (cases r) (auto simp: try_bind_eq_Inr as_str_Some split: option.splits if_splits bind_splits)
qed

lemma relay_result_Inl: "relay_result S line = Inl e \<Longrightarrow> e = relay_error_failed"
  by (auto simp: relay_result_def try_bind_def ok_or_def split: option.splits if_splits sum.splits)

subsection \<open>A run\<close>

definition sx_target :: "socks_electrum_relay \<Rightarrow> rstr \<times> u16" where
  "sx_target self = (host (sx_endpoint self), port (sx_endpoint self))"

lemma socks_broadcast_Inr:
  "run_outcome (socks_broadcast S self env raw) = Inr t \<longleftrightarrow>
     (\<exists>t1 \<le> sx_timeout self. env_connect env (sx_socks5_proxy self) (sx_target self) = After t1 (Some ()))
     \<and> (\<exists>request. relay_request S raw = Some request
          \<and> (\<exists>t2 \<le> sx_timeout self. env_write env request = After t2 (Some ())))
     \<and> (\<exists>t3 \<le> sx_timeout self. \<exists>stream line rest candidate. env_read env = After t3 stream
          \<and> take_read_until (MAX_RELAY_RESPONSE_BYTES + 1) stream = Inr (line, rest)
          \<and> good_response S line candidate \<and> t = to_ascii_lowercase candidate)"
  unfolding socks_broadcast_def sx_target_def
  by (cases "env_read env")
    (auto simp: Let_def timeout_Some relay_result_Inr split: prod.splits option.splits sum.splits if_splits
      dest!: arg_cong [of _ "(_, _)" snd])

lemma socks_broadcast_Inl:
  "run_outcome (socks_broadcast S self env raw) = Inl e \<Longrightarrow> e = relay_error_failed"
  unfolding socks_broadcast_def
  by (auto simp: Let_def relay_result_Inl split: prod.splits option.splits sum.splits if_splits)

interpretation socks: relay_contract "\<lambda>env raw. run_outcome (socks_broadcast S self env raw)" for S self
  by unfold_locales
    (auto simp: socks_broadcast_Inr good_response_def intro: transaction_id_lower)

lemma socks_broadcast_time: "run_nanos (socks_broadcast S self env raw) \<le> 3 * as_nanos (sx_timeout self)"
proof -
  have le: "timeout (sx_timeout self) f = (t, x) \<Longrightarrow> t \<le> as_nanos (sx_timeout self)" for f t and x :: "'x option"
    using timeout_time [of "sx_timeout self" f] by simp
  show ?thesis
    unfolding socks_broadcast_def
    by (auto simp: Let_def split: prod.splits option.splits sum.splits if_splits dest!: le)
qed

lemma socks_broadcast_actions:
  "\<exists>n. run_actions (socks_broadcast S self env raw) =
     take n ([Connect (sx_socks5_proxy self) (sx_target self)]
             @ (case relay_request S raw of
                  None \<Rightarrow> []
                | Some request \<Rightarrow> [WriteAll request, ReadLine (MAX_RELAY_RESPONSE_BYTES + 1)]))"
proof -
  let ?all = "[Connect (sx_socks5_proxy self) (sx_target self)]
             @ (case relay_request S raw of
                  None \<Rightarrow> []
                | Some request \<Rightarrow> [WriteAll request, ReadLine (MAX_RELAY_RESPONSE_BYTES + 1)])"
  have "run_actions (socks_broadcast S self env raw) \<in> {take 1 ?all, take 2 ?all, take 3 ?all}"
    unfolding socks_broadcast_def sx_target_def
    by (auto simp: Let_def split: prod.splits option.splits sum.splits if_splits)
  then show ?thesis by blast
qed

text \<open>The answer that makes a run succeed with the identifier \<open>t\<close>.\<close>

definition relay_answers :: "serde \<Rightarrow> socks_electrum_relay \<Rightarrow> socks_env \<Rightarrow> rstr \<Rightarrow> rstr \<Rightarrow> bool" where
  "relay_answers S self env raw t \<longleftrightarrow>
     (\<exists>t1 \<le> sx_timeout self. env_connect env (sx_socks5_proxy self) (sx_target self) = After t1 (Some ()))
     \<and> (\<exists>request. relay_request S raw = Some request
          \<and> (\<exists>t2 \<le> sx_timeout self. env_write env request = After t2 (Some ())))
     \<and> (\<exists>t3 \<le> sx_timeout self. \<exists>stream line rest candidate. env_read env = After t3 stream
          \<and> take_read_until (MAX_RELAY_RESPONSE_BYTES + 1) stream = Inr (line, rest)
          \<and> good_response S line candidate \<and> t = to_ascii_lowercase candidate)"

lemma ascii_lower_lower [simp]: "ascii_lower (ascii_lower c) = ascii_lower c"
  by (auto simp: ascii_lower_def is_ascii_uppercase_def)

text \<open>A slow relay: every stage takes the whole timeout, and the answer is good.\<close>

definition slow_line :: bytes where
  "slow_line = ''ok'' @ [newline]"

definition slow_serde :: serde where
  "slow_serde = printer_serde [] []
     [(slow_line, \<lparr>resp_id = String RELAY_REQUEST_ID, resp_result = Some (String (replicate 64 CHR ''A'')),
                   resp_error = None\<rparr>)]"

definition slow_env :: "duration \<Rightarrow> socks_env" where
  "slow_env d = \<lparr>env_connect = (\<lambda>proxy target. After d (Some ())), env_write = (\<lambda>request. After d (Some ())),
                 env_read = After d \<lparr>incoming = slow_line, finish = Eof\<rparr>\<rparr>"

definition slow_relay :: socks_electrum_relay where
  "slow_relay = socks_electrum_new (SocketV4 (Ipv4 127 0 0 1) 9050)
     \<lparr>host = ''relay.onion'', port = 50001\<rparr> (from_secs 30)"

lemma slow_run:
  "run_outcome (socks_broadcast slow_serde slow_relay (slow_env (from_secs 30)) ''00'') = Inr (replicate 64 CHR ''a'')"
  "run_nanos (socks_broadcast slow_serde slow_relay (slow_env (from_secs 30)) ''00'') = 90 * 10 ^ 9"
  by (code_simp)+

subsection \<open>Properties of the adapter\<close>

text \<open>
  C32: when the adapter succeeds and when it fails. The outcome is the identifier \<open>t\<close> precisely
  when the proxy connects to the endpoint in time, the request line is written in time, and the
  line read in time, of at most 64 KiB and ended by a newline, parses as a response with the
  adapter's own request identifier, no error, and a result of 64 hexadecimal digits that is
  \<open>t\<close> in lower case. In all other cases it is the failure error.
\<close>

theorem socks_outcome_exact:
  "(run_outcome (socks_broadcast S self env raw) = Inr t \<longleftrightarrow> relay_answers S self env raw t)
   \<and> (run_outcome (socks_broadcast S self env raw) = Inl relay_error_failed
        \<longleftrightarrow> (\<nexists>t. relay_answers S self env raw t))"
proof (cases "run_outcome (socks_broadcast S self env raw)")
  case (Inl e)
  then show ?thesis
    using socks_broadcast_Inl [OF Inl] socks_broadcast_Inr [of S self env raw, folded relay_answers_def] by auto
next
  case (Inr u)
  then show ?thesis
    using socks_broadcast_Inr [of S self env raw, folded relay_answers_def] by auto
qed

text \<open>
  What a success looks like. The text the wallet is given is a transaction identifier, 64
  hexadecimal digits, in lower case, whatever the remote server sent.
\<close>

lemma socks_success_shape:
  assumes "run_outcome (socks_broadcast S self env raw) = Inr t"
  shows "transaction_id t \<and> to_ascii_lowercase t = t"
  using socks.success_shape [OF assms] assms
  by (auto simp: socks_broadcast_Inr to_ascii_lowercase_def)

text \<open>
  C33: one attempt, one destination. What a run does on the network is a prefix of three actions:
  connect through the configured proxy to the configured endpoint, by its name; write the one
  request line with the transaction; read one bounded line. There is no second connection, no
  retry and no other destination on any path.
\<close>

theorem socks_single_attempt:
  "\<exists>n. run_actions (socks_broadcast S self env raw) =
     take n ([Connect (sx_socks5_proxy self) (host (sx_endpoint self), port (sx_endpoint self))]
             @ (case relay_request S raw of
                  None \<Rightarrow> []
                | Some request \<Rightarrow> [WriteAll request, ReadLine (MAX_RELAY_RESPONSE_BYTES + 1)]))"
  using socks_broadcast_actions [of S self env raw] by (simp add: sx_target_def)

text \<open>
  C34: the timeout bounds each of the three stages and not the run. Whatever the network does, a
  run ends within three times the configured timeout, and this is attained: a relay that answers
  each stage just in time makes a run that succeeds after three times the timeout, later than
  the deadline of the timeout and one second at which shutdown cancels the call.
\<close>

theorem socks_outlasts_shutdown_deadline:
  "run_nanos (socks_broadcast S self env raw) \<le> 3 * as_nanos (sx_timeout self)
   \<and> run_outcome (socks_broadcast slow_serde slow_relay (slow_env (from_secs 30)) ''00'') = Inr (replicate 64 CHR ''a'')
   \<and> run_nanos (socks_broadcast slow_serde slow_relay (slow_env (from_secs 30)) ''00'') = 3 * as_nanos (from_secs 30)
   \<and> as_nanos (saturating_add (sx_timeout slow_relay) (from_secs 1)) < 3 * as_nanos (from_secs 30)"
  using slow_run socks_broadcast_time [of S self env raw]
  by (simp add: from_secs_def slow_relay_def socks_electrum_new_def saturating_add_def
      duration_MAX_def min_def less_eq_duration_def)

end
