(* ===== verification/Main_Run.thy ===== *)
theory Main_Run
  imports Server Limited Draining Socks_Electrum
begin

text \<open>
  \<open>src/main.rs\<close>: the order in which a start of the process does its work, the choice and the
  stacking of the relay (adapter, limiter, gate), and the task that waits for the signal.
  \<open>serve\<close>, the argument of \<open>run\<close>, stands for the run of \<open>serve_until\<close> modelled in
  \<open>Server\<close>, with the report or error it returns.
\<close>

datatype adapter = RejectAdapter | SocksAdapter socks_electrum_relay

record ('sem, 'w) relay_stack =
  stack_adapter :: adapter
  stack_limiter :: "'sem limited_relay"
  stack_gate :: "'w shared_drain_state"

text \<open>The adapter of a configuration; \<open>None\<close> is the panic of \<open>expect\<close>.\<close>

definition run_adapter :: "config \<Rightarrow> adapter option" where
  "run_adapter cfg =
     (case relay_mode cfg of
        Reject \<Rightarrow> Some RejectAdapter
      | SocksElectrum \<Rightarrow>
          map_option (\<lambda>e. SocksAdapter (socks_electrum_new (socks5_proxy cfg) e (relay_timeout cfg)))
            (relay_endpoint cfg))"

definition run_relay :: "'sem semaphore \<Rightarrow> 'w watch_channel \<Rightarrow> config \<Rightarrow> ('sem, 'w) relay_stack option" where
  "run_relay X W cfg =
     map_option (\<lambda>a. \<lparr>stack_adapter = a, stack_limiter = limited_new X (max_concurrent_broadcasts cfg),
                      stack_gate = draining_new W\<rparr>) (run_adapter cfg)"

datatype run_action =
    PrintConfigurationValid
  | PrintListening socket_addr
  | ServeUntil config
  | PrintDrainExpired

datatype run_error = RunConfigError config_error | RunProxyError proxy_error

datatype run_result = RunReturns "run_error + unit" | RunPanics

definition run ::
  "'sem semaphore \<Rightarrow> 'w watch_channel \<Rightarrow> (config \<Rightarrow> ('sem, 'w) relay_stack \<Rightarrow> proxy_error + shutdown_report)
     \<Rightarrow> cli \<Rightarrow> run_action list \<times> run_result" where
  "run X W serve cli =
     (case config_try_from cli of
        Inl e \<Rightarrow> ([], RunReturns (Inl (RunConfigError e)))
      | Inr cfg \<Rightarrow>
          if cli_check_config cli then ([PrintConfigurationValid], RunReturns (Inr ()))
          else (case run_relay X W cfg of
                  None \<Rightarrow> ([], RunPanics)
                | Some stack \<Rightarrow>
                    (case serve cfg stack of
                       Inl e \<Rightarrow> ([PrintListening (listen cfg), ServeUntil cfg], RunReturns (Inl (RunProxyError e)))
                     | Inr rep \<Rightarrow>
                         ([PrintListening (listen cfg), ServeUntil cfg]
                            @ (if all_connections_drained rep then [] else [PrintDrainExpired]),
                          RunReturns (Inr ())))))"

datatype exit_code = SUCCESS | FAILURE

text \<open>The exit code of \<open>main\<close>; a panic has none of the two.\<close>

fun main_exit :: "run_result \<Rightarrow> exit_code option" where
  "main_exit (RunReturns (Inr u)) = Some SUCCESS"
| "main_exit (RunReturns (Inl e)) = Some FAILURE"
| "main_exit RunPanics = None"

subsection \<open>One broadcast through the stack\<close>

fun adapter_broadcast :: "serde \<Rightarrow> adapter \<Rightarrow> socks_env \<Rightarrow> rstr \<Rightarrow> relay_outcome" where
  "adapter_broadcast S RejectAdapter env raw = reject_broadcast raw"
| "adapter_broadcast S (SocksAdapter r) env raw = run_outcome (socks_broadcast S r env raw)"

definition stack_broadcast ::
  "'sem semaphore \<Rightarrow> 'w watch_channel \<Rightarrow> serde \<Rightarrow> ('sem, 'w) relay_stack \<Rightarrow> socks_env \<Rightarrow> rstr \<Rightarrow> relay_outcome" where
  "stack_broadcast X W S stack env raw =
     fst (draining_broadcast W
            (\<lambda>raw sh. (fst (limited_broadcast X
                               (\<lambda>raw st. (adapter_broadcast S (stack_adapter stack) env raw, st))
                               raw (stack_limiter stack)), sh))
            raw (stack_gate stack))"

text \<open>
  A wrapper of a relay passes a success on and may add failures; it then keeps the contract of
  the relay inside.
\<close>

locale relay_wrapper = inner: relay_contract broadcast
  for broadcast :: "'env \<Rightarrow> rstr \<Rightarrow> relay_outcome" +
  fixes wrapped :: "'ctx \<Rightarrow> 'env \<Rightarrow> rstr \<Rightarrow> relay_outcome"
  assumes passes: "wrapped ctx env raw = Inr t \<Longrightarrow> broadcast env raw = Inr t"
begin

lemma wrapped_shape: "wrapped ctx env raw = Inr t \<Longrightarrow> transaction_id t"
  using passes inner.success_shape by blast

end

sublocale relay_wrapper \<subseteq> outer: relay_contract "\<lambda>(ctx, env) raw. wrapped ctx env raw"
  by unfold_locales (auto intro: wrapped_shape)

lemma limited_passes:
  "fst (limited_broadcast X (\<lambda>raw st. (f raw, st)) raw st) = Inr t \<Longrightarrow> f raw = Inr t"
  by (auto simp: limited_broadcast_def split: option.splits)

lemma draining_passes:
  "fst (draining_broadcast W (\<lambda>raw sh. (f raw, sh)) raw sh) = Inr t \<Longrightarrow> f raw = Inr t"
  by (auto simp: draining_broadcast_def split: sum.splits)

lemma stack_passes:
  "stack_broadcast X W S stack env raw = Inr t \<Longrightarrow> adapter_broadcast S (stack_adapter stack) env raw = Inr t"
  unfolding stack_broadcast_def by (auto dest!: draining_passes limited_passes)

interpretation adapters: relay_contract "adapter_broadcast S a" for S a
proof unfold_locales
  fix env raw t
  assume "adapter_broadcast S a env raw = Inr t"
  then show "transaction_id t"
    by (cases a) (auto intro: socks.success_shape reject.success_shape)
qed

interpretation stack: relay_wrapper "adapter_broadcast S a"
    "\<lambda>(lim, g). stack_broadcast X W S \<lparr>stack_adapter = a, stack_limiter = lim, stack_gate = g\<rparr>" for X W S a
  by unfold_locales (auto dest: stack_passes)

subsection \<open>The signal task\<close>

text \<open>
  The task that waits for the signal closes the gate of the relay and only then resolves the
  shutdown future of the server. Between its steps the other threads use the gate.
\<close>

datatype signal_pc = AwaitSignal | BeginShutdown | PublishShutdown usize | SendShutdown | SignalDone

record 'w process =
  signal :: signal_pc
  gate_system :: "'w drain_system"
  shutdown_signalled :: bool

inductive process_step :: "'w watch_channel \<Rightarrow> 'w process \<Rightarrow> 'w process \<Rightarrow> bool" for W :: "'w watch_channel" where
  ctrl_c: "signal p = AwaitSignal \<Longrightarrow> process_step W p (p\<lparr>signal := BeginShutdown\<rparr>)"
| close_gate:
    "signal p = BeginShutdown \<Longrightarrow> stop_accepting (shared (gate_system p)) = (n, sh) \<Longrightarrow>
     process_step W p (p\<lparr>signal := PublishShutdown n, gate_system := (gate_system p)\<lparr>shared := sh\<rparr>\<rparr>)"
| publish_gate:
    "signal p = PublishShutdown n \<Longrightarrow>
     process_step W p (p\<lparr>signal := SendShutdown,
       gate_system := (gate_system p)\<lparr>shared := publish W n (shared (gate_system p))\<rparr>\<rparr>)"
| send_shutdown:
    "signal p = SendShutdown \<Longrightarrow> process_step W p (p\<lparr>signal := SignalDone, shutdown_signalled := True\<rparr>)"
| relay_call:
    "drain_step W (gate_system p) g \<Longrightarrow> process_step W p (p\<lparr>gate_system := g\<rparr>)"

definition process_start :: "'w watch_channel \<Rightarrow> 'w process" where
  "process_start W = \<lparr>signal = AwaitSignal, gate_system = drain_init W, shutdown_signalled = False\<rparr>"

fun gate_closed_by :: "signal_pc \<Rightarrow> bool" where
  "gate_closed_by AwaitSignal = False"
| "gate_closed_by BeginShutdown = False"
| "gate_closed_by _ = True"

definition process_inv :: "'w process \<Rightarrow> bool" where
  "process_inv p \<longleftrightarrow> (gate_closed_by (signal p) \<longrightarrow> \<not> is_accepting (shared (gate_system p)))
     \<and> (shutdown_signalled p \<longrightarrow> signal p = SignalDone)"

lemma process_inv_step:
  assumes "process_step W p q" "process_inv p"
  shows "process_inv q"
  using assms
proof (induction rule: process_step.induct)
  case (relay_call p g)
  then show ?case using closed_step by (auto simp: process_inv_def)
qed (auto simp: process_inv_def stop_accepting_def is_accepting_def publish_def)

lemma process_steps_inv: "(process_step W)\<^sup>*\<^sup>* (process_start W) p \<Longrightarrow> process_inv p"
proof (induction rule: rtranclp_induct)
  case base
  show ?case by (simp add: process_inv_def process_start_def)
qed (auto intro: process_inv_step)

subsection \<open>Properties of a start\<close>

lemma run_relay_total:
  assumes "config_try_from cli = Inr cfg"
  shows "run_relay X W cfg \<noteq> None"
  using config_try_from_relay_endpoint [OF assms]
  by (cases "relay_mode cfg") (auto simp: run_relay_def run_adapter_def)

text \<open>
  C22: the process touches the network only with a validated configuration. A start serves a
  configuration precisely when the command line converts to it and is not a mere check; it then
  prints the address and serves once. With an invalid command line, or when only a check was
  asked for, nothing is bound and nothing is connected to.
\<close>

theorem run_serves_only_validated:
  "(ServeUntil cfg \<in> set (fst (run X W serve cli)))
     = (\<not> cli_check_config cli \<and> config_try_from cli = Inr cfg)"
  using run_relay_total [of cli _ X W]
  by (auto simp: run_def split: sum.splits option.splits)

text \<open>
  A start never panics, and its exit code is right. The \<open>expect\<close> on the relay endpoint
  cannot fail; the exit code is a success precisely when the configuration is valid and either
  only a check was asked for or the server returned a report.
\<close>

lemma run_exit_code:
  "snd (run X W serve cli) \<noteq> RunPanics
   \<and> (main_exit (snd (run X W serve cli)) = Some SUCCESS)
       = (case config_try_from cli of
            Inl e \<Rightarrow> False
          | Inr cfg \<Rightarrow> cli_check_config cli
              \<or> (\<exists>stack rep. run_relay X W cfg = Some stack \<and> serve cfg stack = Inr rep))"
  using run_relay_total [of cli _ X W]
  by (auto simp: run_def split: sum.splits option.splits)

end
