(* ===== verification/Simulation.thy ===== *)
theory Simulation
  imports Main
begin

text \<open>
  Refinement by simulation: each step of a detailed system is a number of steps, possibly none,
  of an abstract one, seen through an abstraction function and under an invariant. What is
  proved of the abstract system then holds of the detailed one.
\<close>

locale simulation =
  fixes cstep :: "'c \<Rightarrow> 'c \<Rightarrow> bool"
    and astep :: "'a \<Rightarrow> 'a \<Rightarrow> bool"
    and abs_state :: "'c \<Rightarrow> 'a"
    and good :: "'c \<Rightarrow> bool"
  assumes good_step: "good c \<Longrightarrow> cstep c d \<Longrightarrow> good d"
    and simulates: "good c \<Longrightarrow> cstep c d \<Longrightarrow> astep\<^sup>*\<^sup>* (abs_state c) (abs_state d)"
begin

lemma steps_simulate:
  assumes "cstep\<^sup>*\<^sup>* c d" "good c"
  shows "good d \<and> astep\<^sup>*\<^sup>* (abs_state c) (abs_state d)"
  using assms
proof (induction rule: rtranclp_induct)
  case (step d e)
  then show ?case using good_step [of d e] simulates [of d e] by (auto intro: rtranclp_trans)
qed simp

lemma invariant_transfer:
  assumes "cstep\<^sup>*\<^sup>* c d" "good c" "P (abs_state c)" "\<And>a b. astep a b \<Longrightarrow> P a \<Longrightarrow> P b"
  shows "P (abs_state d)"
proof -
  have "astep\<^sup>*\<^sup>* (abs_state c) (abs_state d)" using steps_simulate assms(1,2) by blast
  then show ?thesis using assms(3,4) by (induction rule: rtranclp_induct) auto
qed

end

end
