(* ===== verification/Ledger.thy ===== *)
theory Ledger
  imports Simulation Connection_Props
begin

text \<open>
  The specification of a connection as a sequential ledger, without tasks, channels, tables and
  schedules: it reads a request, and either forwards it to the upstream or submits it to the
  relay, waits for the outcome and answers; then it reads the next one. It may close at any
  moment. The interpretation \<open>ledger\<close> shows that every schedule of the three tasks refines it.
\<close>

datatype ledger_state =
    Idle
  | Forwarding bytes
  | Submitting "value" rstr
  | Awaiting "value" rstr
  | Answering bytes
  | Closed

record ledger =
  l_state :: ledger_state
  l_read :: "bytes list"
  l_forwarded :: bytes
  l_submitted :: "(value \<times> rstr) list"
  l_outcomes :: "relay_outcome list"
  l_answers :: "bytes list"

inductive ledger_step :: "serde \<Rightarrow> ledger \<Rightarrow> ledger \<Rightarrow> bool" for S where
  read_request:
    "l_state a = Idle \<Longrightarrow> is_passthrough S f \<Longrightarrow>
     ledger_step S a (a\<lparr>l_state := Forwarding f, l_read := l_read a @ [f]\<rparr>)"
| read_broadcast:
    "l_state a = Idle \<Longrightarrow> broadcast_of S f = Some (ident, raw) \<Longrightarrow>
     ledger_step S a (a\<lparr>l_state := Submitting ident raw, l_read := l_read a @ [f]\<rparr>)"
| read_bad:
    "l_state a = Idle \<Longrightarrow> \<not> accepted S f \<Longrightarrow>
     ledger_step S a (a\<lparr>l_state := Closed, l_read := l_read a @ [f]\<rparr>)"
| forward:
    "l_state a = Forwarding f \<Longrightarrow>
     ledger_step S a (a\<lparr>l_state := Idle, l_forwarded := l_forwarded a @ f\<rparr>)"
| forward_part:
    "l_state a = Forwarding f \<Longrightarrow>
     ledger_step S a (a\<lparr>l_state := Closed, l_forwarded := l_forwarded a @ take n f\<rparr>)"
| submit:
    "l_state a = Submitting ident raw \<Longrightarrow>
     ledger_step S a (a\<lparr>l_state := Awaiting ident raw, l_submitted := l_submitted a @ [(ident, raw)]\<rparr>)"
| outcome:
    "l_state a = Awaiting ident raw \<Longrightarrow> broadcast_response S ident r = Some b \<Longrightarrow>
     ledger_step S a (a\<lparr>l_state := Answering b, l_outcomes := l_outcomes a @ [r]\<rparr>)"
| answer:
    "l_state a = Answering b \<Longrightarrow>
     ledger_step S a (a\<lparr>l_state := Idle, l_answers := l_answers a @ [b]\<rparr>)"
| close:
    "ledger_step S a (a\<lparr>l_state := Closed\<rparr>)"

inductive_cases ledger_stepE: "ledger_step S a b"

subsection \<open>The ledger by itself\<close>

text \<open>
  A ledger handles one request at a time: when it is idle, everything it submitted is answered;
  in between, at most one submission is not.
\<close>

fun in_flight :: "ledger_state \<Rightarrow> nat" where
  "in_flight (Awaiting ident raw) = 1"
| "in_flight (Answering b) = 1"
| "in_flight _ = 0"

definition one_at_a_time :: "ledger \<Rightarrow> bool" where
  "one_at_a_time a \<longleftrightarrow> length (l_answers a) \<le> length (l_submitted a)
     \<and> length (l_submitted a) \<le> length (l_answers a) + 1
     \<and> (l_state a \<noteq> Closed \<longrightarrow> length (l_submitted a) = length (l_answers a) + in_flight (l_state a))"

lemma one_at_a_time_step: "ledger_step S a b \<Longrightarrow> one_at_a_time a \<Longrightarrow> one_at_a_time b"
  by (erule ledger_stepE) (auto simp: one_at_a_time_def)

subsection \<open>The abstraction\<close>

fun ledger_state_of :: "client_pc \<Rightarrow> ledger_state" where
  "ledger_state_of CRead = Idle"
| "ledger_state_of (CReserveUpstream key ident frame) = Forwarding frame"
| "ledger_state_of (CWrite frame) = Forwarding frame"
| "ledger_state_of (CReserveBroadcast key ident raw) = Submitting ident raw"
| "ledger_state_of (CCall ident raw key) = Submitting ident raw"
| "ledger_state_of (CRelay ident raw key) = Awaiting ident raw"
| "ledger_state_of (CRelease b key) = Answering b"
| "ledger_state_of (CSend src b) = (if src = RelayReply then Answering b else Closed)"
| "ledger_state_of _ = Closed"

definition ledger_of :: "conn \<Rightarrow> ledger" where
  "ledger_of c = \<lparr>l_state = ledger_state_of (c_pc c), l_read = c_frames c, l_forwarded = to_upstream c,
                  l_submitted = relayed c, l_outcomes = outcomes c, l_answers = replies RelayReply c\<rparr>"

definition conn_steps_to :: "serde \<Rightarrow> connection_limits \<Rightarrow> conn \<Rightarrow> conn \<Rightarrow> bool" where
  "conn_steps_to S limits c d \<longleftrightarrow> (\<exists>e. conn_step S limits e c = Some d)"

lemma ledger_of_eq:
  assumes "c_frames d = c_frames c" "to_upstream d = to_upstream c" "relayed d = relayed c" "outcomes d = outcomes c"
    and "replies RelayReply d = replies RelayReply c"
  shows "ledger_of d = (ledger_of c)\<lparr>l_state := ledger_state_of (c_pc d)\<rparr>"
  using assms by (simp add: ledger_of_def)

lemma ledger_close:
  assumes "c_frames d = c_frames c" "to_upstream d = to_upstream c" "relayed d = relayed c" "outcomes d = outcomes c"
    and "replies RelayReply d = replies RelayReply c"
    and "ledger_state_of (c_pc d) = Closed \<or> ledger_state_of (c_pc d) = ledger_state_of (c_pc c)"
  shows "(ledger_step S)\<^sup>*\<^sup>* (ledger_of c) (ledger_of d)"
proof (cases "ledger_state_of (c_pc d) = Closed")
  case True
  then have "ledger_of d = (ledger_of c)\<lparr>l_state := Closed\<rparr>"
    using ledger_of_eq [OF assms(1-5)] by simp
  then show ?thesis using ledger_step.close [of S "ledger_of c"] by simp
next
  case False
  then have "ledger_of d = ledger_of c"
    using ledger_of_eq [OF assms(1-5)] assms(6) by (simp add: ledger_of_def)
  then show ?thesis by simp
qed

lemma closed_reply [simp]: "ledger_state_of (reply_pc ErrorReply r) = Closed"
  by (cases r) auto

lemma ledger_read:
  assumes "serde_total S" "c_pc c = CRead"
  shows "(ledger_step S)\<^sup>*\<^sup>* (ledger_of c)
     (ledger_of (c\<lparr>client_in := rest, c_frames := c_frames c @ [frame], c_pc := client_dispatch S frame\<rparr>))"
proof -
  let ?d = "c\<lparr>client_in := rest, c_frames := c_frames c @ [frame], c_pc := client_dispatch S frame\<rparr>"
  have idle: "l_state (ledger_of c) = Idle" using assms(2) by (simp add: ledger_of_def)
  have d: "ledger_of ?d = (ledger_of c)\<lparr>l_state := ledger_state_of (client_dispatch S frame),
      l_read := l_read (ledger_of c) @ [frame]\<rparr>"
    by (simp add: ledger_of_def replies_def)
  consider (pass) "is_passthrough S frame" "ledger_state_of (client_dispatch S frame) = Forwarding frame"
    | (broadcast) ident raw where "broadcast_of S frame = Some (ident, raw)"
        "ledger_state_of (client_dispatch S frame) = Submitting ident raw"
    | (bad) "\<not> accepted S frame" "ledger_state_of (client_dispatch S frame) = Closed"
    using dispatch_total [OF assms(1), of frame]
    by (fastforce simp: client_dispatch_def is_passthrough_def broadcast_of_def accepted_def
        split: sum.splits client_frame.splits option.splits)
  then have "ledger_step S (ledger_of c) (ledger_of ?d)"
  proof cases
    case pass
    then show ?thesis unfolding d using ledger_step.read_request [OF idle] by simp
  next
    case broadcast
    then show ?thesis unfolding d using ledger_step.read_broadcast [OF idle] by simp
  next
    case bad
    then show ?thesis unfolding d using ledger_step.read_bad [OF idle] by simp
  qed
  then show ?thesis by blast
qed

lemma ledger_client_poll:
  assumes "serde_total S" "client_poll S limits c = Some d"
  shows "(ledger_step S)\<^sup>*\<^sup>* (ledger_of c) (ledger_of d)"
proof (cases "c_pc c")
  case CRead
  then have d: "d = client_read S limits c" using assms(2) by (simp add: client_poll_def)
  show ?thesis
  proof (cases "\<not> wait_for_shutdown (shutdown c)
      \<and> (\<exists>frame rest. read_frame (limit_frame_bytes limits) (client_in c) = Inr (Some frame, rest))")
    case True
    then show ?thesis unfolding d using ledger_read [OF assms(1) CRead] by (auto simp: client_read_def)
  next
    case False
    then show ?thesis
      unfolding d client_read_def
      by (cases "wait_for_shutdown (shutdown c)")
        (auto simp: replies_def split: sum.splits prod.splits option.splits io_error_kind.splits
          intro!: ledger_close)
  qed
next
  case (CReserveUpstream key ident frame)
  with assms(2) show ?thesis
    by (auto simp: client_poll_def client_reserve_def replies_def split: prod.splits reservation.splits
        intro!: ledger_close)
next
  case (CReserveBroadcast key ident raw)
  with assms(2) show ?thesis
    by (auto simp: client_poll_def client_reserve_def replies_def split: prod.splits reservation.splits
        intro!: ledger_close)
next
  case (CCall ident raw key)
  with assms(2) have "ledger_of d = (ledger_of c)\<lparr>l_state := Awaiting ident raw,
      l_submitted := l_submitted (ledger_of c) @ [(ident, raw)]\<rparr>"
    by (auto simp: client_poll_def ledger_of_def replies_def)
  moreover have "l_state (ledger_of c) = Submitting ident raw" using CCall by (simp add: ledger_of_def)
  ultimately show ?thesis using ledger_step.submit [of "ledger_of c" ident raw S] by simp
next
  case (CSend src b)
  show ?thesis
  proof (cases "src = RelayReply \<and> \<not> w_finished (w_pc c)")
    case True
    with CSend assms(2) have "ledger_of d = (ledger_of c)\<lparr>l_state := Idle, l_answers := l_answers (ledger_of c) @ [b]\<rparr>"
      by (auto simp: client_poll_def channel_send_def ledger_of_def replies_def split: if_splits)
    moreover have "l_state (ledger_of c) = Answering b" using CSend True by (simp add: ledger_of_def)
    ultimately show ?thesis using ledger_step.answer [of "ledger_of c" b S] by simp
  next
    case False
    with CSend assms(2) show ?thesis
      by (auto simp: client_poll_def channel_send_def replies_def split: if_splits intro!: ledger_close)
  qed
qed (use assms(2) in \<open>auto simp: client_poll_def replies_def intro!: ledger_close\<close>)

lemma ledger_simulates:
  assumes "serde_total S" "conn_step S limits e c = Some d"
  shows "(ledger_step S)\<^sup>*\<^sup>* (ledger_of c) (ledger_of d)"
proof (cases "client_event e")
  case False
  have eq: "replies RelayReply d = map snd (filter (\<lambda>x. fst x = RelayReply) (filter (\<lambda>x. fst x \<noteq> FromUpstream) (sent d)))" for d
    unfolding replies_def filter_filter by (auto intro!: arg_cong [of _ _ "map snd"] filter_cong)
  note frame = other_events_frame [OF assms(2) False]
  show ?thesis
  proof (rule ledger_close)
    show "replies RelayReply d = replies RelayReply c" unfolding eq using frame by simp
  qed (use frame in auto)
next
  case True
  show ?thesis
  proof (cases e)
    case ClientPoll
    with assms show ?thesis by (auto intro: ledger_client_poll)
  next
    case (ClientWritten failure)
    then obtain frame where pc: "c_pc c = CWrite frame"
      using assms(2) by (auto simp: client_written_def split: client_pc.splits)
    have st: "l_state (ledger_of c) = Forwarding frame" using pc by (simp add: ledger_of_def)
    show ?thesis
    proof (cases failure)
      case None
      with ClientWritten pc assms(2)
      have "ledger_of d = (ledger_of c)\<lparr>l_state := Idle, l_forwarded := l_forwarded (ledger_of c) @ frame\<rparr>"
        by (auto simp: client_written_def ledger_of_def replies_def)
      then show ?thesis using ledger_step.forward [OF st] by (metis r_into_rtranclp)
    next
      case (Some f)
      with ClientWritten pc assms(2)
      have "ledger_of d = (ledger_of c)\<lparr>l_state := Closed, l_forwarded := l_forwarded (ledger_of c) @ take (fst f) frame\<rparr>"
        by (auto simp: client_written_def ledger_of_def replies_def split: prod.splits)
      then show ?thesis using ledger_step.forward_part [OF st] by (metis r_into_rtranclp)
    qed
  next
    case (RelayReturns r)
    then obtain ident raw key where pc: "c_pc c = CRelay ident raw key"
      using assms(2) by (auto simp: relay_returns_def split: client_pc.splits)
    obtain b where b: "broadcast_response S ident r = Some b"
      using broadcast_response_total [OF assms(1)] by blast
    have "ledger_of d = (ledger_of c)\<lparr>l_state := Answering b, l_outcomes := l_outcomes (ledger_of c) @ [r]\<rparr>"
      using RelayReturns pc b assms(2) by (auto simp: relay_returns_def ledger_of_def replies_def)
    moreover have "l_state (ledger_of c) = Awaiting ident raw" using pc by (simp add: ledger_of_def)
    ultimately show ?thesis using ledger_step.outcome [of "ledger_of c" ident raw S r b] b by simp
  qed (use True in auto)
qed

interpretation ledger: simulation "conn_steps_to S limits" "ledger_step S" ledger_of "\<lambda>c. serde_total S"
  for S limits
  by unfold_locales (auto simp: conn_steps_to_def intro: ledger_simulates)

lemma conn_run_steps: "conn_run S limits es c = Some d \<Longrightarrow> (conn_steps_to S limits)\<^sup>*\<^sup>* c d"
proof (induction es arbitrary: c)
  case (Cons e es)
  then obtain u where "conn_steps_to S limits c u" "conn_run S limits es u = Some d"
    by (auto simp: conn_steps_to_def split: option.splits)
  with Cons.IH show ?case by (meson converse_rtranclp_into_rtranclp)
qed simp

text \<open>
  C12: every schedule of a connection refines the sequential ledger. Whatever the interleaving of
  the three tasks, the supervisor and the events around them, what has been read, forwarded,
  submitted and answered so far is what a ledger could have done that handles one request at a
  time; in particular at most one broadcast of a connection is in flight, and none is answered
  twice.
\<close>

theorem connection_refines_ledger:
  assumes "serde_total S" "conn_run S limits es (proxy_streams_start cs us) = Some c"
  shows "(ledger_step S)\<^sup>*\<^sup>* \<lparr>l_state = Idle, l_read = [], l_forwarded = [], l_submitted = [],
                              l_outcomes = [], l_answers = []\<rparr> (ledger_of c)
    \<and> one_at_a_time (ledger_of c)"
proof -
  have start: "ledger_of (proxy_streams_start cs us) = \<lparr>l_state = Idle, l_read = [], l_forwarded = [],
      l_submitted = [], l_outcomes = [], l_answers = []\<rparr>"
    by (simp add: ledger_of_def proxy_streams_start_def replies_def)
  note steps = conn_run_steps [OF assms(2)]
  have "one_at_a_time (ledger_of (proxy_streams_start cs us))"
    by (simp add: start one_at_a_time_def)
  then have "one_at_a_time (ledger_of c)"
    using ledger.invariant_transfer [OF steps assms(1), of one_at_a_time] one_at_a_time_step by blast
  then show ?thesis
    using ledger.steps_simulate [OF steps assms(1)] start by simp
qed

theorem connection_refines_ledger_witness:
  "one_at_a_time (ledger_of demo1) \<and> l_state (ledger_of demo1) = Awaiting (num 2) ''00ff''
   \<and> l_forwarded (ledger_of demo1) = q_frame"
proof -
  have "l_state (ledger_of demo1) = Awaiting (num 2) ''00ff''" "l_forwarded (ledger_of demo1) = q_frame"
    by code_simp+
  then show ?thesis using connection_refines_ledger [OF demo_serde_ok(1) demo1_run] by blast
qed

end
