(* ===== verification/Process.thy ===== *)
theory Process
  imports Main_Run Ledger
begin

text \<open>
  The composition of the parts at run time: any number of connections that share one relay
  stack. A connection whose client task is in \<open>relay.broadcast\<close> has a call; the call passes the
  gate (\<open>src/relay/draining.rs\<close>), the limiter (\<open>src/relay/limited.rs\<close>) and the adapter, in
  the order in which \<open>src/main.rs\<close> stacks them, one step for each operation on shared state,
  and returns the same way. When the client task is cancelled, its call is dropped and unwinds
  by the same steps, but no outcome reaches the connection. \<open>adapter_log\<close> records the
  transactions given to the adapter.

  The process refines the limiter and the gate, each on its own, and every connection of it is
  a run of the connection, so that what is proved of the parts holds of the whole.
\<close>

datatype call_stage =
    NoCall
  | GateEntered usize rstr
  | AtLimiter rstr
  | AtPayload rstr
  | InAdapterCall rstr
  | Unwinding rstr relay_outcome
  | GateLeft usize rstr relay_outcome
  | CallDone rstr relay_outcome

record ('sem, 'w) proc =
  p_conns :: "(conn \<times> call_stage) list"
  p_limiter :: "'sem limited_relay"
  p_gate :: "'w shared_drain_state"
  p_stops :: "usize multiset"
  adapter_log :: "rstr list"

definition proc_start ::
  "'sem semaphore \<Rightarrow> 'w watch_channel \<Rightarrow> concurrent_broadcast_limit \<Rightarrow> usize \<Rightarrow> ('sem, 'w) proc" where
  "proc_start X W limit budget =
     \<lparr>p_conns = [], p_limiter = with_payload_budget X limit budget,
      p_gate = draining_new W, p_stops = {#}, adapter_log = []\<rparr>"

text \<open>One step inside a call: the stage and the shared state before and after.\<close>

inductive call_step ::
  "'sem semaphore \<Rightarrow> 'w watch_channel \<Rightarrow>
     call_stage \<times> 'sem limited_relay \<times> 'w shared_drain_state \<times> rstr list \<Rightarrow>
     call_stage \<times> 'sem limited_relay \<times> 'w shared_drain_state \<times> rstr list \<Rightarrow> bool"
  for X :: "'sem semaphore" and W :: "'w watch_channel" where
  publish_entry: "call_step X W (GateEntered n raw, l, g, log) (AtLimiter raw, l, publish W n g, log)"
| too_long: "u32_try_from (length raw) = None \<Longrightarrow>
    call_step X W (AtLimiter raw, l, g, log) (Unwinding raw (Inl relay_error_failed), l, g, log)"
| no_slot: "u32_try_from (length raw) \<noteq> None \<Longrightarrow> acquire_request X l = None \<Longrightarrow>
    call_step X W (AtLimiter raw, l, g, log) (Unwinding raw (Inl relay_error_failed), l, g, log)"
| slot: "u32_try_from (length raw) \<noteq> None \<Longrightarrow> acquire_request X l = Some l' \<Longrightarrow>
    call_step X W (AtLimiter raw, l, g, log) (AtPayload raw, l', g, log)"
| no_bytes: "acquire_payload X (permits raw) l = None \<Longrightarrow>
    call_step X W (AtPayload raw, l, g, log) (Unwinding raw (Inl relay_error_failed), drop_request X l, g, log)"
| bytes: "acquire_payload X (permits raw) l = Some l' \<Longrightarrow>
    call_step X W (AtPayload raw, l, g, log) (InAdapterCall raw, l', g, log @ [raw])"
| adapter_returns: "call_step X W (InAdapterCall raw, l, g, log)
    (Unwinding raw r, drop_request X (drop_payload X (permits raw) l), g, log)"
| leave: "leave_call g = (n, g') \<Longrightarrow>
    call_step X W (Unwinding raw r, l, g, log) (GateLeft n raw r, l, g', log)"
| publish_exit: "call_step X W (GateLeft n raw r, l, g, log) (CallDone raw r, l, publish W n g, log)"

inductive_simps call_step_simps:
  "call_step X W (GateEntered n raw, l, g, log) b"
  "call_step X W (AtLimiter raw, l, g, log) b"
  "call_step X W (AtPayload raw, l, g, log) b"
  "call_step X W (InAdapterCall raw, l, g, log) b"
  "call_step X W (Unwinding raw r, l, g, log) b"
  "call_step X W (GateLeft n raw r, l, g, log) b"

text \<open>
  What a connection may do by itself beside its call: the relay returns through the call only,
  and a client task that is cancelled is finished only after its call was dropped and has
  unwound.
\<close>

fun call_over :: "call_stage \<Rightarrow> bool" where
  "call_over NoCall = True"
| "call_over (CallDone raw r) = True"
| "call_over _ = False"

fun outside_call :: "conn_event \<Rightarrow> call_stage \<Rightarrow> bool" where
  "outside_call (RelayReturns r) st = False"
| "outside_call (Cancel ClientTask) st = call_over st"
| "outside_call _ st = True"

lemma outside_callD: "outside_call e st \<Longrightarrow> \<forall>r. e \<noteq> RelayReturns r"
  by (cases e) auto

text \<open>A call enters, is refused, proceeds or returns.\<close>

inductive call_move ::
  "'sem semaphore \<Rightarrow> 'w watch_channel \<Rightarrow> serde \<Rightarrow> ('sem, 'w) proc \<Rightarrow> ('sem, 'w) proc \<Rightarrow> bool"
  for X :: "'sem semaphore" and W :: "'w watch_channel" and S where
  enters:
    "i < length (p_conns p) \<Longrightarrow> p_conns p ! i = (c, NoCall) \<Longrightarrow> c_pc c = CRelay ident raw key \<Longrightarrow>
     enter_call (p_gate p) = Inr (n, g) \<Longrightarrow>
     call_move X W S p (p\<lparr>p_conns := (p_conns p)[i := (c, GateEntered n raw)], p_gate := g\<rparr>)"
| refused:
    "i < length (p_conns p) \<Longrightarrow> p_conns p ! i = (c, NoCall) \<Longrightarrow> c_pc c = CRelay ident raw key \<Longrightarrow>
     enter_call (p_gate p) = Inl e \<Longrightarrow>
     call_move X W S p (p\<lparr>p_conns := (p_conns p)[i := (c, CallDone raw (Inl e))]\<rparr>)"
| proceeds:
    "i < length (p_conns p) \<Longrightarrow> p_conns p ! i = (c, st) \<Longrightarrow>
     call_step X W (st, p_limiter p, p_gate p, adapter_log p) (st', l, g, log) \<Longrightarrow>
     call_move X W S p
       (p\<lparr>p_conns := (p_conns p)[i := (c, st')], p_limiter := l, p_gate := g, adapter_log := log\<rparr>)"
| returns:
    "i < length (p_conns p) \<Longrightarrow> p_conns p ! i = (c, CallDone raw r) \<Longrightarrow> relay_returns S r c = Some c' \<Longrightarrow>
     call_move X W S p (p\<lparr>p_conns := (p_conns p)[i := (c', NoCall)]\<rparr>)"

text \<open>
  One step of the process. The server accepts a connection; a task of a connection runs; a call
  moves; the gate is closed.
\<close>

inductive proc_step ::
  "'sem semaphore \<Rightarrow> 'w watch_channel \<Rightarrow> serde \<Rightarrow> connection_limits \<Rightarrow> ('sem, 'w) proc \<Rightarrow> ('sem, 'w) proc \<Rightarrow> bool"
  for X :: "'sem semaphore" and W :: "'w watch_channel" and S limits where
  accepted_connection:
    "proc_step X W S limits p (p\<lparr>p_conns := p_conns p @ [(proxy_streams_start cs us, NoCall)]\<rparr>)"
| connection_event:
    "i < length (p_conns p) \<Longrightarrow> p_conns p ! i = (c, st) \<Longrightarrow> outside_call e st \<Longrightarrow>
     conn_step S limits e c = Some c' \<Longrightarrow>
     proc_step X W S limits p (p\<lparr>p_conns := (p_conns p)[i := (c', st)]\<rparr>)"
| call_moves:
    "call_move X W S p q \<Longrightarrow> proc_step X W S limits p q"
| stop:
    "stop_accepting (p_gate p) = (n, g) \<Longrightarrow>
     proc_step X W S limits p (p\<lparr>p_gate := g, p_stops := add_mset n (p_stops p)\<rparr>)"
| publish_stop:
    "n \<in># p_stops p \<Longrightarrow>
     proc_step X W S limits p (p\<lparr>p_gate := publish W n (p_gate p), p_stops := p_stops p - {#n#}\<rparr>)"

lemma proc_step_induct [consumes 1, case_names accepted_connection connection_event call_enters
    call_refused call_proceeds call_returns stop publish_stop]:
  assumes "proc_step X W S limits p q"
    and "\<And>p cs us. P p (p\<lparr>p_conns := p_conns p @ [(proxy_streams_start cs us, NoCall)]\<rparr>)"
    and "\<And>i p c st e c'. i < length (p_conns p) \<Longrightarrow> p_conns p ! i = (c, st) \<Longrightarrow> outside_call e st \<Longrightarrow>
      conn_step S limits e c = Some c' \<Longrightarrow> P p (p\<lparr>p_conns := (p_conns p)[i := (c', st)]\<rparr>)"
    and "\<And>i p c ident raw key n g. i < length (p_conns p) \<Longrightarrow> p_conns p ! i = (c, NoCall) \<Longrightarrow>
      c_pc c = CRelay ident raw key \<Longrightarrow> enter_call (p_gate p) = Inr (n, g) \<Longrightarrow>
      P p (p\<lparr>p_conns := (p_conns p)[i := (c, GateEntered n raw)], p_gate := g\<rparr>)"
    and "\<And>i p c ident raw key e. i < length (p_conns p) \<Longrightarrow> p_conns p ! i = (c, NoCall) \<Longrightarrow>
      c_pc c = CRelay ident raw key \<Longrightarrow> enter_call (p_gate p) = Inl e \<Longrightarrow>
      P p (p\<lparr>p_conns := (p_conns p)[i := (c, CallDone raw (Inl e))]\<rparr>)"
    and "\<And>i p c st st' l g log. i < length (p_conns p) \<Longrightarrow> p_conns p ! i = (c, st) \<Longrightarrow>
      call_step X W (st, p_limiter p, p_gate p, adapter_log p) (st', l, g, log) \<Longrightarrow>
      P p (p\<lparr>p_conns := (p_conns p)[i := (c, st')], p_limiter := l, p_gate := g, adapter_log := log\<rparr>)"
    and "\<And>i p c raw r c'. i < length (p_conns p) \<Longrightarrow> p_conns p ! i = (c, CallDone raw r) \<Longrightarrow>
      relay_returns S r c = Some c' \<Longrightarrow> P p (p\<lparr>p_conns := (p_conns p)[i := (c', NoCall)]\<rparr>)"
    and "\<And>p n g. stop_accepting (p_gate p) = (n, g) \<Longrightarrow>
      P p (p\<lparr>p_gate := g, p_stops := add_mset n (p_stops p)\<rparr>)"
    and "\<And>n p. n \<in># p_stops p \<Longrightarrow>
      P p (p\<lparr>p_gate := publish W n (p_gate p), p_stops := p_stops p - {#n#}\<rparr>)"
  shows "P p q"
  using assms(1)
proof cases
  case call_moves
  then show ?thesis by cases (simp_all add: assms(4-7))
qed (simp_all add: assms(2,3,8,9))

abbreviation proc_steps ::
  "'sem semaphore \<Rightarrow> 'w watch_channel \<Rightarrow> serde \<Rightarrow> connection_limits \<Rightarrow> ('sem, 'w) proc \<Rightarrow> ('sem, 'w) proc \<Rightarrow> bool" where
  "proc_steps X W S limits \<equiv> (proc_step X W S limits)\<^sup>*\<^sup>*"

subsection \<open>The share of each connection\<close>

text \<open>What all entries of a list contribute together, and what an update of one of them changes.\<close>

definition over :: "('a \<Rightarrow> 'b list) \<Rightarrow> 'a list \<Rightarrow> 'b multiset" where
  "over f xs = mset (concat (map f xs))"

lemma over_nil [simp]: "over f [] = {#}"
  by (simp add: over_def)

lemma over_snoc [simp]: "over f (xs @ [x]) = over f xs + mset (f x)"
  by (simp add: over_def)

lemma over_nth: "i < length xs \<Longrightarrow> over f xs = mset (f (xs ! i)) + (over f (take i xs) + over f (drop (Suc i) xs))"
  unfolding over_def
  by (subst id_take_nth_drop [of i xs]) (simp_all add: ac_simps)

lemma over_replace:
  assumes "i < length xs" "xs ! i = x"
  obtains R where "over f xs = mset (f x) + R" "\<And>y. over f (xs[i := y]) = mset (f y) + R"
proof (rule that)
  show "over f xs = mset (f x) + (over f (take i xs) + over f (drop (Suc i) xs))"
    using over_nth [OF assms(1)] assms(2) by simp
  show "over f (xs[i := y]) = mset (f y) + (over f (take i xs) + over f (drop (Suc i) xs))" for y
    using assms(1) by (subst over_nth [of i]) simp_all
qed

lemma over_unchanged:
  assumes "i < length xs" "xs ! i = x" "f y = f x"
  shows "over f (xs[i := y]) = over f xs"
  using assms by (metis over_replace)

fun stage_calls :: "call_stage \<Rightarrow> limited_call list" where
  "stage_calls (AtPayload raw) = [HoldsRequest raw]"
| "stage_calls (InAdapterCall raw) = [InAdapter raw]"
| "stage_calls _ = []"

fun stage_tasks :: "call_stage \<Rightarrow> drain_task list" where
  "stage_tasks (GateEntered n raw) = [PublishEntry n raw]"
| "stage_tasks (AtLimiter raw) = [InInner raw]"
| "stage_tasks (AtPayload raw) = [InInner raw]"
| "stage_tasks (InAdapterCall raw) = [InInner raw]"
| "stage_tasks (Unwinding raw r) = [InInner raw]"
| "stage_tasks (GateLeft n raw r) = [PublishExit n]"
| "stage_tasks _ = []"

definition limiter_of :: "('sem, 'w) proc \<Rightarrow> 'sem limited_system" where
  "limiter_of p = \<lparr>relay = p_limiter p, calls = over (stage_calls \<circ> snd) (p_conns p)\<rparr>"

definition gate_of :: "('sem, 'w) proc \<Rightarrow> 'w drain_system" where
  "gate_of p = \<lparr>shared = p_gate p,
                drain_tasks = over (stage_tasks \<circ> snd) (p_conns p) + image_mset PublishStop (p_stops p)\<rparr>"

subsection \<open>The process refines the limiter\<close>

lemma limiter_call:
  assumes "call_step X W (stage, l, g, log) (stage', l', g', log')"
  shows "(limited_step X)\<^sup>*\<^sup>* \<lparr>relay = l, calls = mset (stage_calls stage) + R\<rparr>
     \<lparr>relay = l', calls = mset (stage_calls stage') + R\<rparr>"
  using assms
proof (cases rule: call_step.cases)
  case (slot raw)
  then show ?thesis
    using limited_step.take_request [of raw X "\<lparr>relay = l, calls = R\<rparr>" l'] by auto
next
  case (no_bytes raw)
  then show ?thesis
    using limited_step.refuse_payload [of raw "\<lparr>relay = l, calls = add_mset (HoldsRequest raw) R\<rparr>" X] by auto
next
  case (bytes raw)
  then show ?thesis
    using limited_step.take_payload [of raw "\<lparr>relay = l, calls = add_mset (HoldsRequest raw) R\<rparr>" X l'] by auto
next
  case (adapter_returns raw)
  then show ?thesis
    using limited_step.finish_call [of raw "\<lparr>relay = l, calls = add_mset (InAdapter raw) R\<rparr>" X] by auto
qed auto

lemma limiter_simulates:
  assumes "proc_step X W S limits p q"
  shows "(limited_step X)\<^sup>*\<^sup>* (limiter_of p) (limiter_of q)"
  using assms
proof (induction rule: proc_step_induct)
  case (call_proceeds i p c st st' l g log)
  then obtain R where "over (stage_calls \<circ> snd) (p_conns p) = mset (stage_calls st) + R"
    "\<And>y. over (stage_calls \<circ> snd) ((p_conns p)[i := y]) = mset (stage_calls (snd y)) + R"
    using over_replace [of i "p_conns p" "(c, st)" "stage_calls \<circ> snd"] by auto
  then show ?case using limiter_call [OF call_proceeds(3), of R] by (simp add: limiter_of_def)
qed (simp_all add: limiter_of_def over_unchanged)

interpretation limiter_sim: simulation "proc_step X W S limits" "limited_step X" limiter_of "\<lambda>p. True"
  for X W S limits
  by unfold_locales (auto intro: limiter_simulates)

subsection \<open>The process refines the gate\<close>

lemma gate_call:
  assumes "call_step X W (stage, l, g, log) (stage', l', g', log')"
  shows "(drain_step W)\<^sup>*\<^sup>* \<lparr>shared = g, drain_tasks = mset (stage_tasks stage) + R\<rparr>
        \<lparr>shared = g', drain_tasks = mset (stage_tasks stage') + R\<rparr>"
  using assms
proof (cases rule: call_step.cases)
  case (publish_entry n raw)
  then show ?thesis
    using drain_step.publish_entry [of n raw "\<lparr>shared = g, drain_tasks = add_mset (PublishEntry n raw) R\<rparr>" W] by auto
next
  case (leave n raw)
  then show ?thesis
    using drain_step.leave [of raw "\<lparr>shared = g, drain_tasks = add_mset (InInner raw) R\<rparr>" n g' W] by auto
next
  case (publish_exit n)
  then show ?thesis
    using drain_step.publish_exit [of n "\<lparr>shared = g, drain_tasks = add_mset (PublishExit n) R\<rparr>" W] by auto
qed auto

lemma gate_simulates:
  assumes "proc_step X W S limits p q"
  shows "(drain_step W)\<^sup>*\<^sup>* (gate_of p) (gate_of q)"
  using assms
proof (induction rule: proc_step_induct)
  case (call_enters i p c ident raw key n g)
  then obtain R where "over (stage_tasks \<circ> snd) (p_conns p) = R"
    "\<And>y. over (stage_tasks \<circ> snd) ((p_conns p)[i := y]) = mset (stage_tasks (snd y)) + R"
    using over_replace [of i "p_conns p" "(c, NoCall)" "stage_tasks \<circ> snd"] by auto
  then show ?case
    using drain_step.admit [of "gate_of p" n g W raw] call_enters(4) by (auto simp: gate_of_def)
next
  case (call_proceeds i p c st st' l g log)
  then obtain R where "over (stage_tasks \<circ> snd) (p_conns p) = mset (stage_tasks st) + R"
    "\<And>y. over (stage_tasks \<circ> snd) ((p_conns p)[i := y]) = mset (stage_tasks (snd y)) + R"
    using over_replace [of i "p_conns p" "(c, st)" "stage_tasks \<circ> snd"] by auto
  then show ?case
    using gate_call [OF call_proceeds(3), of "R + image_mset PublishStop (p_stops p)"]
    by (simp add: gate_of_def add.assoc)
next
  case (stop p n g)
  then show ?case using drain_step.stop [of "gate_of p" n g W] by (auto simp: gate_of_def)
next
  case (publish_stop n p)
  then show ?case
    using drain_step.publish_stop [of n "gate_of p" W]
    by (auto simp: gate_of_def image_mset_Diff)
qed (simp_all add: gate_of_def over_unchanged)

interpretation gate_sim: simulation "proc_step X W S limits" "drain_step W" gate_of "\<lambda>p. True"
  for X W S limits
  by unfold_locales (auto intro: gate_simulates)

subsection \<open>Every connection of the process is a run of the connection\<close>

text \<open>The transactions a connection has handed to the relay.\<close>

definition handed_over :: "conn \<Rightarrow> rstr list" where
  "handed_over c = map snd (relayed c)"

lemma conn_run_snoc:
  "conn_run S limits es c = Some d \<Longrightarrow> conn_step S limits e d = Some d' \<Longrightarrow> conn_run S limits (es @ [e]) c = Some d'"
  by (induction es arbitrary: c) (auto split: option.splits)

definition is_run :: "serde \<Rightarrow> connection_limits \<Rightarrow> conn \<Rightarrow> bool" where
  "is_run S limits c \<longleftrightarrow> (\<exists>cs us es. conn_run S limits es (proxy_streams_start cs us) = Some c)"

lemma is_run_start: "is_run S limits (proxy_streams_start cs us)"
  unfolding is_run_def by (intro exI [of _ cs] exI [of _ us] exI [of _ "[]"]) simp

lemma is_run_step: "is_run S limits c \<Longrightarrow> conn_step S limits e c = Some d \<Longrightarrow> is_run S limits d"
  unfolding is_run_def using conn_run_snoc by blast

lemma is_run_returns: "is_run S limits c \<Longrightarrow> relay_returns S r c = Some d \<Longrightarrow> is_run S limits d"
  using is_run_step [of S limits c "RelayReturns r" d] by simp

lemma run_relayed:
  assumes "is_run S limits c"
  shows "length (outcomes c) \<le> length (relayed c)"
    and "c_pc c = CRelay ident raw key \<Longrightarrow>
      \<exists>earlier. relayed c = earlier @ [(ident, raw)] \<and> length earlier = length (outcomes c)"
proof -
  from assms have inv: "reply_inv S c" unfolding is_run_def using run_invs(3) by blast
  from reply_inv_stopped [OF inv] show "length (outcomes c) \<le> length (relayed c)" by simp
  show "\<exists>earlier. relayed c = earlier @ [(ident, raw)] \<and> length earlier = length (outcomes c)"
    if "c_pc c = CRelay ident raw key" using inv that by (simp add: reply_inv_def)
qed

text \<open>
  A call belongs to a submission of its connection: the one its client task waits for, unless
  the task was cancelled; and a client task that is finished has no call in the relay.
\<close>

fun stage_raw :: "call_stage \<Rightarrow> rstr option" where
  "stage_raw NoCall = None"
| "stage_raw (GateEntered n raw) = Some raw"
| "stage_raw (AtLimiter raw) = Some raw"
| "stage_raw (AtPayload raw) = Some raw"
| "stage_raw (InAdapterCall raw) = Some raw"
| "stage_raw (Unwinding raw r) = Some raw"
| "stage_raw (GateLeft n raw r) = Some raw"
| "stage_raw (CallDone raw r) = Some raw"

definition call_matches :: "conn \<times> call_stage \<Rightarrow> bool" where
  "call_matches = (\<lambda>(c, st). pred_option
     (\<lambda>raw. raw \<in> set (handed_over c)
        \<and> (c_pc c = CCancelled \<or> (\<exists>ident key. c_pc c = CRelay ident raw key))) (stage_raw st)
     \<and> (c_finished (c_pc c) \<longrightarrow> call_over st))"

definition entries_ok :: "serde \<Rightarrow> connection_limits \<Rightarrow> ('sem, 'w) proc \<Rightarrow> bool" where
  "entries_ok S limits p \<longleftrightarrow> (\<forall>x \<in> set (p_conns p). is_run S limits (fst x) \<and> call_matches x)"

lemma entries_update:
  assumes "entries_ok S limits p" "is_run S limits c" "call_matches (c, st)"
  shows "entries_ok S limits (p\<lparr>p_conns := (p_conns p)[i := (c, st)]\<rparr>)"
  using assms set_update_subset_insert [of "p_conns p" i "(c, st)"] by (auto simp: entries_ok_def)

lemma entries_nth:
  assumes "entries_ok S limits p" "i < length (p_conns p)" "p_conns p ! i = (c, st)"
  shows "is_run S limits c" "call_matches (c, st)"
  using assms nth_mem [OF assms(2)] by (auto simp: entries_ok_def)

lemma event_submits:
  assumes "conn_step S limits e c = Some c'" "\<forall>r. e \<noteq> RelayReturns r"
  shows "outcomes c' = outcomes c
    \<and> (relayed c' = relayed c \<and> (in_relay (c_pc c') = in_relay (c_pc c) \<or> in_relay (c_pc c') = [])
       \<or> (\<exists>x. relayed c' = relayed c @ [x] \<and> in_relay (c_pc c') = [x]))"
proof (cases "client_event e")
  case True
  with assms(2) consider (poll) "e = ClientPoll" | (written) f where "e = ClientWritten f"
    by (cases e) auto
  then show ?thesis
  proof cases
    case poll
    show ?thesis
    proof (cases "c_pc c")
      case CRead
      with poll assms(1) show ?thesis
        by (auto simp: client_poll_def client_read_def split: step_splits)
    next
      case (CReserveUpstream key ident frame)
      with poll assms(1) show ?thesis
        by (auto simp: client_poll_def client_reserve_def split: step_splits)
    next
      case (CReserveBroadcast key ident raw)
      with poll assms(1) show ?thesis
        by (auto simp: client_poll_def client_reserve_def split: step_splits)
    qed (use poll assms(1) in \<open>auto simp: client_poll_def channel_send_def split: option.splits if_splits\<close>)
  next
    case written
    with assms(1) show ?thesis by (auto simp: client_written_def split: step_splits)
  qed
next
  case False
  from other_events_frame [OF assms(1) False] show ?thesis by auto
qed

lemma stage_raw_None [simp]: "stage_raw st = None \<longleftrightarrow> st = NoCall"
  by (cases st) auto

lemma relay_wait_steps:
  assumes "conn_step S limits e c = Some c'" "outside_call e st" "call_matches (c, st)"
  shows "call_matches (c', st)"
proof (cases "stage_raw st")
  case (Some raw)
  then have c: "raw \<in> set (handed_over c)" "c_pc c = CCancelled \<or> (\<exists>ident key. c_pc c = CRelay ident raw key)"
    "c_finished (c_pc c) \<longrightarrow> call_over st"
    using assms(3) by (auto simp: call_matches_def)
  have "raw \<in> set (handed_over c')"
    using event_submits [OF assms(1) outside_callD [OF assms(2)]] c(1) by (auto simp: handed_over_def)
  moreover have "c_pc c' = c_pc c \<or> c_pc c' = CCancelled \<and> call_over st"
  proof (cases "client_event e")
    case True
    with assms(1) outside_callD [OF assms(2)] c(2) show ?thesis
      by (cases e) (auto simp: client_poll_def client_written_def)
  next
    case False
    show ?thesis
    proof (cases "e = Cancel ClientTask")
      case False
      with assms(1) \<open>\<not> client_event e\<close> show ?thesis
        by (cases e) (auto simp: upstream_poll_def channel_send_def step_defs split: step_splits)
    qed (use other_events_frame [OF assms(1) False] assms(2) in auto)
  qed
  ultimately show ?thesis using c(2,3) Some by (auto simp: call_matches_def)
qed (simp add: call_matches_def)

lemma relay_wait_enters:
  assumes "is_run S limits c" "c_pc c = CRelay ident raw key" "stage_raw st = Some raw"
  shows "call_matches (c, st)"
  using run_relayed(2) [OF assms(1,2)] assms(2,3) by (auto simp: call_matches_def handed_over_def)

lemma call_step_raw:
  "call_step X W (st, l, g, log) (st', l', g', log') \<Longrightarrow> stage_raw st' = stage_raw st \<and> \<not> call_over st"
  by (cases rule: call_step.cases) auto

lemma entries_step:
  assumes "proc_step X W S limits p q" "entries_ok S limits p"
  shows "entries_ok S limits q"
  using assms
proof (induction rule: proc_step_induct)
  case (accepted_connection p cs us)
  then show ?case by (auto simp: entries_ok_def is_run_start call_matches_def)
next
  case (connection_event i p c st e c')
  then show ?case
    using entries_nth [OF connection_event.prems connection_event(1,2)]
      entries_update [OF connection_event.prems is_run_step relay_wait_steps] by blast
next
  case (call_enters i p c ident raw key n g)
  then show ?case
    using entries_nth [OF call_enters.prems call_enters(1,2)] entries_update [of S limits p c "GateEntered n raw" i]
      relay_wait_enters [of S limits c ident raw key "GateEntered n raw"]
    by (simp add: entries_ok_def)
next
  case (call_refused i p c ident raw key e)
  then show ?case
    using entries_nth [OF call_refused.prems call_refused(1,2)] entries_update [of S limits p c "CallDone raw (Inl e)" i]
      relay_wait_enters [of S limits c ident raw key "CallDone raw (Inl e)"]
    by simp
next
  case (call_proceeds i p c st st' l g log)
  then show ?case
    using entries_nth [OF call_proceeds.prems call_proceeds(1,2)] entries_update [of S limits p c st' i]
      call_step_raw [OF call_proceeds(3)]
    by (simp add: call_matches_def entries_ok_def)
next
  case (call_returns i p c raw r c')
  then show ?case
    using entries_update [OF call_returns.prems is_run_returns, of c r c' NoCall i]
      entries_nth [OF call_returns.prems call_returns(1,2)]
    by (simp add: call_matches_def)
qed (simp_all add: entries_ok_def)

lemma entries_steps: "proc_steps X W S limits p q \<Longrightarrow> entries_ok S limits p \<Longrightarrow> entries_ok S limits q"
  by (induction rule: rtranclp_induct) (auto intro: entries_step)

lemma entries_start: "entries_ok S limits (proc_start X W limit budget)"
  by (simp add: entries_ok_def proc_start_def)

subsection \<open>Submissions and successes\<close>

text \<open>
  The transactions of a connection whose calls returned a success, and those of the broadcast
  requests among the frames it has read.
\<close>

definition succeeded :: "conn \<Rightarrow> rstr list" where
  "succeeded c = map (snd \<circ> fst) (filter (\<lambda>x. \<not> isl (snd x)) (zip (relayed c) (outcomes c)))"

definition asked_for :: "serde \<Rightarrow> conn \<Rightarrow> rstr list" where
  "asked_for S c = map snd (broadcasts S c)"

text \<open>A call on its way to the adapter, and a call that has been there and did not fail.\<close>

fun to_adapter :: "call_stage \<Rightarrow> rstr list" where
  "to_adapter (GateEntered n raw) = [raw]"
| "to_adapter (AtLimiter raw) = [raw]"
| "to_adapter (AtPayload raw) = [raw]"
| "to_adapter _ = []"

fun from_adapter :: "call_stage \<Rightarrow> rstr list" where
  "from_adapter (InAdapterCall raw) = [raw]"
| "from_adapter (Unwinding raw r) = (if isl r then [] else [raw])"
| "from_adapter (GateLeft n raw r) = (if isl r then [] else [raw])"
| "from_adapter (CallDone raw r) = (if isl r then [] else [raw])"
| "from_adapter _ = []"

fun may_submit :: "conn \<times> call_stage \<Rightarrow> rstr list" where
  "may_submit (c, NoCall) = map snd (in_relay (c_pc c))"
| "may_submit (c, st) = to_adapter st"

lemma call_step_log:
  assumes "call_step X W (st, l, g, log) (st', l', g', log')"
  shows "mset log' + mset (to_adapter st') \<subseteq># mset log + mset (to_adapter st)"
    and "mset (from_adapter st') + mset log \<subseteq># mset (from_adapter st) + mset log'"
    and "st' \<noteq> NoCall \<and> st \<noteq> NoCall"
proof -
  show "mset log' + mset (to_adapter st') \<subseteq># mset log + mset (to_adapter st)"
    using assms by (cases rule: call_step.cases) auto
  show "mset (from_adapter st') + mset log \<subseteq># mset (from_adapter st) + mset log'"
    using assms by (cases rule: call_step.cases) auto
  show "st' \<noteq> NoCall \<and> st \<noteq> NoCall"
    using assms by (cases rule: call_step.cases) auto
qed

lemma mset_exchange:
  assumes "L + (a + R) \<subseteq># h + Q" "L' + a' + h \<subseteq># L + a + h'"
  shows "L' + (a' + R) \<subseteq># h' + Q"
  unfolding subseteq_mset_def
proof
  fix x
  show "count (L' + (a' + R)) x \<le> count (h' + Q) x"
    using mset_subset_eq_count [OF assms(1), of x] mset_subset_eq_count [OF assms(2), of x] by simp
qed

definition submit_inv :: "('sem, 'w) proc \<Rightarrow> bool" where
  "submit_inv p \<longleftrightarrow> mset (adapter_log p) + over may_submit (p_conns p) \<subseteq># over (handed_over \<circ> fst) (p_conns p)"

text \<open>A step of one entry keeps the account when it does so for this entry and the log.\<close>

lemma submit_exchange:
  assumes "submit_inv p" "i < length (p_conns p)" "p_conns p ! i = (c, st)"
    and "mset log + mset (may_submit (c', st')) + mset (handed_over c)
      \<subseteq># mset (adapter_log p) + mset (may_submit (c, st)) + mset (handed_over c')"
  shows "mset log + over may_submit ((p_conns p)[i := (c', st')])
     \<subseteq># over (handed_over \<circ> fst) ((p_conns p)[i := (c', st')])"
proof -
  obtain R where R: "over may_submit (p_conns p) = mset (may_submit (c, st)) + R"
    "\<And>y. over may_submit ((p_conns p)[i := y]) = mset (may_submit y) + R"
    using over_replace [OF assms(2,3), of may_submit] by auto
  obtain Q where Q: "over (handed_over \<circ> fst) (p_conns p) = mset (handed_over c) + Q"
    "\<And>y. over (handed_over \<circ> fst) ((p_conns p)[i := y]) = mset (handed_over (fst y)) + Q"
    using over_replace [OF assms(2,3), of "handed_over \<circ> fst"] by auto
  from assms(1) mset_exchange [OF _ assms(4), of R Q] show ?thesis
    by (simp add: submit_inv_def R Q)
qed

lemma may_submit_event:
  assumes "conn_step S limits e c = Some c'" "\<forall>r. e \<noteq> RelayReturns r"
  shows "mset (may_submit (c', st)) + mset (handed_over c) \<subseteq># mset (may_submit (c, st)) + mset (handed_over c')"
  using event_submits [OF assms] by (cases st) (auto simp: handed_over_def)

lemma relay_returns_pc:
  "relay_returns S r c = Some c' \<Longrightarrow> in_relay (c_pc c') = [] \<and> relayed c' = relayed c \<and> outcomes c' = outcomes c @ [r]"
  by (auto simp: relay_returns_def split: client_pc.splits option.splits)

lemma may_submit_call: "st \<noteq> NoCall \<Longrightarrow> may_submit (c, st) = to_adapter st"
  by (cases st) auto

lemma submit_step:
  assumes "proc_step X W S limits p q" "submit_inv p"
  shows "submit_inv q"
  using assms
proof (induction rule: proc_step_induct)
  case (accepted_connection p cs us)
  then show ?case by (simp add: submit_inv_def proxy_streams_start_def handed_over_def)
next
  case (connection_event i p c st e c')
  then show ?case
    using submit_exchange [OF connection_event.prems connection_event(1,2), of "adapter_log p" c' st]
      may_submit_event [OF connection_event(4) outside_callD [OF connection_event(3)], of st]
    by (simp add: submit_inv_def add.assoc)
next
  case (call_enters i p c ident raw key n g)
  then show ?case
    using submit_exchange [OF call_enters.prems call_enters(1,2), of "adapter_log p" c "GateEntered n raw"]
    by (simp add: submit_inv_def)
next
  case (call_refused i p c ident raw key e)
  then show ?case
    using submit_exchange [OF call_refused.prems call_refused(1,2), of "adapter_log p" c "CallDone raw (Inl e)"]
    by (simp add: submit_inv_def)
next
  case (call_proceeds i p c st st' l g log)
  then show ?case
    using submit_exchange [OF call_proceeds.prems call_proceeds(1,2), of log c st']
      call_step_log(1,3) [OF call_proceeds(3)]
    by (simp add: submit_inv_def may_submit_call)
next
  case (call_returns i p c raw r c')
  then show ?case
    using submit_exchange [OF call_returns.prems call_returns(1,2), of "adapter_log p" c' NoCall]
      relay_returns_pc [OF call_returns(3)]
    by (simp add: submit_inv_def handed_over_def)
qed (simp_all add: submit_inv_def)

subsubsection \<open>Successes\<close>

definition published_by :: "conn \<times> call_stage \<Rightarrow> rstr list" where
  "published_by = (\<lambda>(c, st). succeeded c @ from_adapter st)"

definition success_inv :: "('sem, 'w) proc \<Rightarrow> bool" where
  "success_inv p \<longleftrightarrow> over published_by (p_conns p) \<subseteq># mset (adapter_log p)"

lemma success_exchange:
  assumes "success_inv p" "i < length (p_conns p)" "p_conns p ! i = (c, st)"
    and "mset (published_by (c', st')) + mset (adapter_log p) \<subseteq># mset (published_by (c, st)) + mset log"
  shows "over published_by ((p_conns p)[i := (c', st')]) \<subseteq># mset log"
proof -
  obtain R where R: "over published_by (p_conns p) = mset (published_by (c, st)) + R"
    "\<And>y. over published_by ((p_conns p)[i := y]) = mset (published_by y) + R"
    using over_replace [OF assms(2,3), of published_by] by auto
  from assms(1,4) mset_exchange [of "{#}" _ R _ "{#}" "{#}"] show ?thesis
    by (simp add: success_inv_def R)
qed

lemma succeeded_event:
  assumes "conn_step S limits e c = Some c'" "\<forall>r. e \<noteq> RelayReturns r" "is_run S limits c"
  shows "succeeded c' = succeeded c"
  using event_submits [OF assms(1,2)] run_relayed(1) [OF assms(3)]
  by (auto simp: succeeded_def zip_append1)

lemma succeeded_returns:
  assumes "relay_returns S r c = Some c'" "is_run S limits c" "call_matches (c, CallDone raw r)"
  shows "succeeded c' = succeeded c @ from_adapter (CallDone raw r)"
proof -
  obtain ident key where pc: "c_pc c = CRelay ident raw key"
    using assms(1,3) by (auto simp: call_matches_def relay_returns_def)
  obtain earlier where "relayed c = earlier @ [(ident, raw)]" "length earlier = length (outcomes c)"
    using run_relayed(2) [OF assms(2) pc] by auto
  with relay_returns_pc [OF assms(1)] show ?thesis by (simp add: succeeded_def zip_append1)
qed

lemma success_step:
  assumes "proc_step X W S limits p q" "success_inv p" "entries_ok S limits p"
  shows "success_inv q"
  using assms
proof (induction rule: proc_step_induct)
  case (accepted_connection p cs us)
  then show ?case by (simp add: success_inv_def proxy_streams_start_def published_by_def succeeded_def)
next
  case (connection_event i p c st e c')
  then show ?case
    using success_exchange [OF connection_event(5,1,2), of c' st "adapter_log p"]
      succeeded_event [OF connection_event(4) outside_callD [OF connection_event(3)]] entries_nth [OF connection_event(6,1,2)]
    by (simp add: success_inv_def published_by_def)
next
  case (call_enters i p c ident raw key n g)
  then show ?case
    using success_exchange [OF call_enters(5,1,2), of c "GateEntered n raw" "adapter_log p"]
    by (simp add: success_inv_def published_by_def)
next
  case (call_refused i p c ident raw key e)
  then show ?case
    using success_exchange [OF call_refused(5,1,2), of c "CallDone raw (Inl e)" "adapter_log p"]
    by (simp add: success_inv_def published_by_def)
next
  case (call_proceeds i p c st st' l g log)
  then show ?case
    using success_exchange [OF call_proceeds(4,1,2), of c st' log] call_step_log(2) [OF call_proceeds(3)]
    by (simp add: success_inv_def published_by_def add.assoc)
next
  case (call_returns i p c raw r c')
  then show ?case
    using success_exchange [OF call_returns(4,1,2), of c' NoCall "adapter_log p"]
      succeeded_returns [OF call_returns(3)] entries_nth [OF call_returns(5,1,2)]
    by (simp add: success_inv_def published_by_def)
qed (simp_all add: success_inv_def)

subsection \<open>The closed gate\<close>

lemma log_grows: "proc_step X W S limits p q \<Longrightarrow> prefix (adapter_log p) (adapter_log q)"
proof (induction rule: proc_step_induct)
  case (call_proceeds i p c st st' l g log)
  from call_proceeds(3) show ?case by (cases rule: call_step.cases) auto
qed simp_all

lemma log_grows_steps: "proc_steps X W S limits p q \<Longrightarrow> prefix (adapter_log p) (adapter_log q)"
  by (induction rule: rtranclp_induct) (auto intro: prefix_order.trans log_grows)

definition owed :: "('sem, 'w) proc \<Rightarrow> rstr multiset" where
  "owed p = mset (adapter_log p) + over (to_adapter \<circ> snd) (p_conns p)"

lemma owed_step:
  assumes "proc_step X W S limits p q" "\<not> is_accepting (p_gate p)"
  shows "owed q \<subseteq># owed p"
  using assms
proof (induction rule: proc_step_induct)
  case (call_enters i p c ident raw key n g)
  then show ?case by (simp add: enter_call_Inr is_accepting_def)
next
  case (call_proceeds i p c st st' l g log)
  then obtain R where "over (to_adapter \<circ> snd) (p_conns p) = mset (to_adapter st) + R"
    "\<And>y. over (to_adapter \<circ> snd) ((p_conns p)[i := y]) = mset (to_adapter (snd y)) + R"
    using over_replace [of i "p_conns p" "(c, st)" "to_adapter \<circ> snd"] by auto
  then show ?case
    using call_step_log(1) [OF call_proceeds(3)] by (simp add: owed_def flip: add.assoc)
qed (simp_all add: owed_def over_unchanged)

lemma closed_process:
  assumes "proc_steps X W S limits p q" "\<not> is_accepting (p_gate p)"
  shows "\<not> is_accepting (p_gate q)"
  using closed_steps [of W "gate_of p" "gate_of q"] gate_sim.steps_simulate [OF assms(1)] assms(2)
  by (simp add: gate_of_def)

lemma owed_steps:
  assumes "proc_steps X W S limits p q" "\<not> is_accepting (p_gate p)"
  shows "owed q \<subseteq># owed p"
  using assms
proof (induction rule: rtranclp_induct)
  case (step q r)
  then show ?case
    using owed_step [OF step(2)] closed_process [OF step(1)] by (auto intro: subset_mset.order_trans)
qed simp

lemma admitted_union [simp]: "admitted (M + N) = admitted M + admitted N"
  by (simp add: admitted_def)

lemma idle_gate_owes_nothing:
  assumes "drain_inv (gate_of p)" "active_calls (p_gate p) = 0"
  shows "over (to_adapter \<circ> snd) (p_conns p) = {#}"
proof -
  have "mset (to_adapter st) \<subseteq># admitted (mset (stage_tasks st))" for st
    by (cases st) (auto simp: admitted_def)
  then have "over (to_adapter \<circ> snd) xs \<subseteq># admitted (over (stage_tasks \<circ> snd) xs)" for xs :: "(conn \<times> call_stage) list"
    by (induction xs) (auto simp: over_def intro: subset_mset.add_mono)
  moreover have "admitted (over (stage_tasks \<circ> snd) (p_conns p)) = {#}"
    using assms by (simp add: drain_inv_def gate_of_def counts_def active_calls_def)
  ultimately show ?thesis by (metis subset_mset.le_zero_eq)
qed

lemma gate_inv_reachable:
  "proc_steps X W S limits (proc_start X W limit budget) p \<Longrightarrow> drain_inv (gate_of p)"
  using gate_sim.invariant_transfer [where P = drain_inv and S = S and X = X and W = W and limits = limits]
    drain_inv_step drain_inv_init [of W]
  by (fastforce simp: gate_of_def proc_start_def drain_init_def)

lemma closed_idle_log:
  assumes "proc_steps X W S limits (proc_start X W limit budget) p" "\<not> is_accepting (p_gate p)"
    and "active_calls (p_gate p) = 0" "proc_steps X W S limits p q"
  shows "adapter_log q = adapter_log p"
proof -
  have "mset (adapter_log q) \<subseteq># mset (adapter_log p)"
    using owed_steps [OF assms(4,2)] idle_gate_owes_nothing [OF gate_inv_reachable [OF assms(1)] assms(3)]
    by (auto simp: owed_def dest: mset_subset_eq_add_left [THEN subset_mset.order_trans])
  with log_grows_steps [OF assms(4)] show ?thesis by (auto simp: prefix_def)
qed

lemma limiter_inv_reachable:
  assumes "proc_steps X W S limits (proc_start X W limit budget) p" "semaphore_laws X"
  shows "limited_inv X (unat (broadcast_limit_get limit)) (unat budget) (limiter_of p)"
  using limiter_sim.invariant_transfer [OF assms(1), where P = "limited_inv X (unat (broadcast_limit_get limit)) (unat budget)"]
    limited_inv_step limited_inv_start [OF assms(2)]
  by (fastforce simp: limiter_of_def proc_start_def)

lemma reachable_account:
  assumes "proc_steps X W S limits (proc_start X W limit budget) p"
  shows "entries_ok S limits p \<and> submit_inv p \<and> success_inv p"
  using assms
proof (induction rule: rtranclp_induct)
  case base
  show ?case using entries_start by (simp add: submit_inv_def success_inv_def proc_start_def entries_ok_def)
next
  case (step q r)
  then show ?case using entries_step submit_step success_step by blast
qed

lemma over_mono: "(\<And>x. x \<in> set xs \<Longrightarrow> mset (f x) \<subseteq># mset (g x)) \<Longrightarrow> over f xs \<subseteq># over g xs"
  by (induction xs) (auto simp: over_def intro: subset_mset.add_mono)

lemma run_asked:
  assumes "is_run S limits c"
  shows "mset (handed_over c) \<subseteq># mset (asked_for S c)"
proof -
  from assms have "log_inv S c" unfolding is_run_def using run_invs(2) by blast
  then have "relayed c = broadcasts S c \<or> (\<exists>x. relayed c @ [x] = broadcasts S c)"
    using log_inv_stopped by (auto simp: logs_stopped_def)
  then show ?thesis
  proof
    assume "\<exists>x. relayed c @ [x] = broadcasts S c"
    then obtain x where "broadcasts S c = relayed c @ [x]" by metis
    then show ?thesis by (simp add: handed_over_def asked_for_def)
  qed (simp add: handed_over_def asked_for_def)
qed

lemma asked_for_hex: "raw \<in> set (asked_for S c) \<Longrightarrow> hex_transaction raw"
  by (auto simp: asked_for_def broadcasts_def in_map_filter dest: broadcast_of_hex)

subsection \<open>Transactions fit in frames\<close>

text \<open>
  A JSON text is at least as long as a string that it contains: each character of the string
  stands in the text as itself or as a longer escape. Of \<open>serde_json\<close>, for the parameter of a
  broadcast:
\<close>

definition serde_strings_fit :: "serde \<Rightarrow> bool" where
  "serde_strings_fit S \<longleftrightarrow>
     (\<forall>text request raw. from_slice_request S text = Some request \<longrightarrow>
        req_params request = Some (String raw) \<or> req_params request = Some (Array [String raw]) \<longrightarrow>
        length raw \<le> length text)"

lemma broadcast_fits:
  assumes "serde_strings_fit S" "broadcast_of S f = Some (ident, raw)"
  shows "length raw \<le> length f"
proof -
  from assms(2) obtain r where "from_slice_request S f = Some r"
    "req_params r = Some (Array [String raw]) \<or> req_params r = Some (String raw)"
    by (auto simp: broadcast_of_def classify_def Let_def ok_or_def try_bind_eq_Inr broadcast_param_Some
        split: sum.splits client_frame.splits option.splits if_splits)
  then show ?thesis using assms(1) unfolding serde_strings_fit_def by blast
qed

lemma run_transactions_fit:
  assumes "serde_strings_fit S" "usable_limit (limit_frame_bytes limits)" "is_run S limits c" "raw \<in> set (handed_over c)"
  shows "length raw \<le> unat (limit_frame_bytes limits)"
proof -
  have "raw \<in> set (asked_for S c)" using assms(4) run_asked [OF assms(3)] by (metis mset_subset_eqD set_mset_mset)
  then obtain f ident where f: "f \<in> set (c_frames c)" "broadcast_of S f = Some (ident, raw)"
    by (auto simp: asked_for_def broadcasts_def in_map_filter)
  from assms(3) obtain cs where "read_prefix limits cs c"
    unfolding is_run_def using run_invs(1) [OF _ assms(2)] by blast
  then have "length f \<le> unat (limit_frame_bytes limits)"
    using f(1) by (auto simp: read_prefix_def list_all_iff frame_ok_def)
  with broadcast_fits [OF assms(1) f(2)] show ?thesis by simp
qed

lemma in_over: "y \<in># over f xs \<longleftrightarrow> (\<exists>x \<in> set xs. y \<in> set (f x))"
  by (auto simp: over_def)

lemma stage_calls_raw: "k \<in> set (stage_calls st) \<Longrightarrow> stage_raw st = Some (raw_of k)"
  by (cases st) auto

lemma process_transactions_fit:
  assumes "serde_strings_fit S" "usable_limit (limit_frame_bytes limits)" "entries_ok S limits p"
    and "k \<in># calls (limiter_of p)"
  shows "length (raw_of k) \<le> unat (limit_frame_bytes limits)"
proof -
  from assms(4) obtain c st where x: "(c, st) \<in> set (p_conns p)" "stage_raw st = Some (raw_of k)"
    by (auto simp: limiter_of_def in_over dest: stage_calls_raw)
  with assms(3) have "is_run S limits c" "call_matches (c, st)" by (auto simp: entries_ok_def)
  with x(2) run_transactions_fit [OF assms(1,2), of c "raw_of k"] show ?thesis by (simp add: call_matches_def)
qed

lemma task_limits_usable: "config_bounded cfg \<Longrightarrow> usable_limit (limit_frame_bytes (task_limits cfg))"
  by (simp add: usable_limit_def task_limits_def config_bounded_def)

end
