(* ===== verification/System.thy ===== *)
theory System
  imports Process
begin

text \<open>
  The whole program at run time: the listener of \<open>serve_until\<close> (\<open>src/proxy.rs\<close>, theory
  \<open>Server\<close>), the connections with the relay stack they share (theory \<open>Process\<close>) and the signal
  task (\<open>src/main.rs\<close>, theory \<open>Main_Run\<close>), as \<open>run\<close> puts them together. A connection task that
  has reached the upstream is a connection of the process; \<open>live\<close> holds the places of those
  whose task runs. The task returns when the supervisor of its connection is done, and when it
  breaks or is aborted its connection is dropped. The signal task closes the gate before it
  resolves the shutdown future; the drain of the listener sets the shutdown value that the
  connections see. The shutdown future also resolves when the sender is dropped; the signal task
  owns the sender and drops it by the send or after it, so this is no step of its own.

  The interpretations \<open>listener_sim\<close>, \<open>process_sim\<close> and \<open>signal_sim\<close> project a run of the system to
  a run of each of its parts, so that the invariants of the parts hold in it. \<open>stop_step\<close> is what
  is left to happen when every connection task hangs, and is enough to end the program.
\<close>

record ('sem, 'w) sys =
  srv :: "'sem server"
  prc :: "('sem, 'w) proc"
  sig :: signal_pc
  live :: "nat list"

definition sys_start :: "'sem semaphore \<Rightarrow> 'w watch_channel \<Rightarrow> config \<Rightarrow> proxy_error option \<Rightarrow> ('sem, 'w) sys" where
  "sys_start X W cfg bind_error =
     \<lparr>srv = serve_start X cfg bind_error,
      prc = proc_start X W (max_concurrent_broadcasts cfg) MAX_CONFIGURABLE_IN_FLIGHT_BROADCAST_BYTES,
      sig = AwaitSignal, live = []\<rparr>"

text \<open>The connection task is gone: the drop of its three handles aborts its tasks.\<close>

definition drop_one :: "nat \<Rightarrow> ('sem, 'w) proc \<Rightarrow> ('sem, 'w) proc" where
  "drop_one i p =
     (case p_conns p ! i of (c, st) \<Rightarrow>
        (case drop_connection c of
           None \<Rightarrow> p
         | Some d \<Rightarrow> p\<lparr>p_conns := (p_conns p)[i := (d, st)]\<rparr>))"

fun returned :: "server_phase \<Rightarrow> bool" where
  "returned (Returned r) = True"
| "returned _ = False"

definition after_turn :: "'sem server \<Rightarrow> ('sem, 'w) sys \<Rightarrow> ('sem, 'w) sys" where
  "after_turn t s =
     (if returned (phase t) then s\<lparr>srv := t, prc := foldr drop_one (live s) (prc s), live := []\<rparr>
      else s\<lparr>srv := t\<rparr>)"

text \<open>What the listener does without a connection task that proxies.\<close>

fun listener_event :: "config \<Rightarrow> server_event \<Rightarrow> bool" where
  "listener_event cfg ShutdownResolves = False"
| "listener_event cfg (Task Proxying e) = False"
| "listener_event cfg (Task Connecting (ConnectReady attempt)) = (\<not> task_connect cfg attempt)"
| "listener_event cfg _ = True"

text \<open>
  The shutdown channel of the connections: the value becomes true when the drain begins, and the
  sender is gone when \<open>serve_until\<close> has returned.
\<close>

fun told :: "'sem server \<Rightarrow> conn_event \<Rightarrow> bool" where
  "told s (Shutdown w) = (w = \<lparr>requested = shutdown_sent s, sender_alive = (\<not> returned (phase s))\<rparr>)"
| "told s DropConnection = False"
| "told s _ = True"

inductive sys_step ::
  "'sem semaphore \<Rightarrow> 'w watch_channel \<Rightarrow> serde \<Rightarrow> config \<Rightarrow> ('sem, 'w) sys \<Rightarrow> ('sem, 'w) sys \<Rightarrow> bool"
  for X :: "'sem semaphore" and W :: "'w watch_channel" and S cfg where
  ctrl_c:
    "sig s = AwaitSignal \<Longrightarrow> sys_step X W S cfg s (s\<lparr>sig := BeginShutdown\<rparr>)"
| close_gate:
    "sig s = BeginShutdown \<Longrightarrow> stop_accepting (p_gate (prc s)) = (n, g) \<Longrightarrow>
     sys_step X W S cfg s (s\<lparr>sig := PublishShutdown n,
       prc := (prc s)\<lparr>p_gate := g, p_stops := add_mset n (p_stops (prc s))\<rparr>\<rparr>)"
| publish_gate:
    "sig s = PublishShutdown n \<Longrightarrow>
     sys_step X W S cfg s (s\<lparr>sig := SendShutdown,
       prc := (prc s)\<lparr>p_gate := publish W n (p_gate (prc s)), p_stops := p_stops (prc s) - {#n#}\<rparr>\<rparr>)"
| send_shutdown:
    "sig s = SendShutdown \<Longrightarrow> server_step X cfg ShutdownResolves (srv s) = Some t \<Longrightarrow>
     sys_step X W S cfg s (s\<lparr>sig := SignalDone, srv := t\<rparr>)"
| listener_turn:
    "listener_event cfg e \<Longrightarrow> server_step X cfg e (srv s) = Some t \<Longrightarrow>
     sys_step X W S cfg s (after_turn t s)"
| upstream_connected:
    "task_connect cfg attempt \<Longrightarrow> server_step X cfg (Task Connecting (ConnectReady attempt)) (srv s) = Some t \<Longrightarrow>
     sys_step X W S cfg s (s\<lparr>srv := t,
       prc := (prc s)\<lparr>p_conns := p_conns (prc s) @ [(proxy_streams_start cs us, NoCall)]\<rparr>,
       live := length (p_conns (prc s)) # live s\<rparr>)"
| proxy_returned:
    "i \<in> set (live s) \<Longrightarrow> s_pc (fst (p_conns (prc s) ! i)) = SDone \<Longrightarrow>
     server_step X cfg (Task Proxying ProxyReturns) (srv s) = Some t \<Longrightarrow>
     sys_step X W S cfg s (s\<lparr>srv := t, live := remove1 i (live s)\<rparr>)"
| proxy_broken:
    "i \<in> set (live s) \<Longrightarrow> s_pc (fst (p_conns (prc s) ! i)) \<noteq> SDone \<Longrightarrow>
     server_step X cfg (Task Proxying Breaks) (srv s) = Some t \<Longrightarrow>
     sys_step X W S cfg s (s\<lparr>srv := t, prc := drop_one i (prc s), live := remove1 i (live s)\<rparr>)"
| connection_works:
    "i < length (p_conns (prc s)) \<Longrightarrow> p_conns (prc s) ! i = (c, st) \<Longrightarrow> outside_call e st \<Longrightarrow> told (srv s) e \<Longrightarrow>
     conn_step S (task_limits cfg) e c = Some c' \<Longrightarrow>
     sys_step X W S cfg s (s\<lparr>prc := (prc s)\<lparr>p_conns := (p_conns (prc s))[i := (c', st)]\<rparr>\<rparr>)"
| call_works:
    "call_move X W S (prc s) p \<Longrightarrow> sys_step X W S cfg s (s\<lparr>prc := p\<rparr>)"

abbreviation sys_steps ::
  "'sem semaphore \<Rightarrow> 'w watch_channel \<Rightarrow> serde \<Rightarrow> config \<Rightarrow> ('sem, 'w) sys \<Rightarrow> ('sem, 'w) sys \<Rightarrow> bool" where
  "sys_steps X W S cfg \<equiv> (sys_step X W S cfg)\<^sup>*\<^sup>*"

definition listener_step :: "'sem semaphore \<Rightarrow> config \<Rightarrow> 'sem server \<Rightarrow> 'sem server \<Rightarrow> bool" where
  "listener_step X cfg s t \<longleftrightarrow> (\<exists>e. server_step X cfg e s = Some t)"

subsection \<open>The system projects to the listener\<close>

lemma srv_after_turn [simp]: "srv (after_turn t s) = t" "sig (after_turn t s) = sig s"
  by (simp_all add: after_turn_def)

lemma listener_stepI: "server_step X cfg e s = Some t \<Longrightarrow> (listener_step X cfg)\<^sup>*\<^sup>* s t"
  unfolding listener_step_def by (intro r_into_rtranclp exI)

lemma listener_simulates:
  assumes "sys_step X W S cfg s t"
  shows "(listener_step X cfg)\<^sup>*\<^sup>* (srv s) (srv t)"
  using assms by cases (auto intro: listener_stepI simp del: server_step.simps)

interpretation listener_sim: simulation "sys_step X W S cfg" "listener_step X cfg" srv "\<lambda>s. True"
  for X W S cfg
  by unfold_locales (auto intro: listener_simulates)

subsection \<open>The system projects to the process\<close>

fun stops_of :: "signal_pc \<Rightarrow> usize multiset" where
  "stops_of (PublishShutdown n) = {#n#}"
| "stops_of _ = {#}"

definition live_ok :: "('sem, 'w) sys \<Rightarrow> bool" where
  "live_ok s \<longleftrightarrow> distinct (live s) \<and> (\<forall>i \<in> set (live s). i < length (p_conns (prc s)))
     \<and> p_stops (prc s) = stops_of (sig s) \<and> (sig s = SignalDone \<longrightarrow> shutdown_ready (srv s))"

lemma length_drop_one [simp]: "length (p_conns (drop_one i p)) = length (p_conns p)"
  by (simp add: drop_one_def split: prod.splits option.splits)

lemma length_drop_all [simp]: "length (p_conns (foldr drop_one is p)) = length (p_conns p)"
  by (induction "is") simp_all

lemma drop_one_frame [simp]:
  "p_stops (drop_one i p) = p_stops p" "p_gate (drop_one i p) = p_gate p"
  "map snd (p_conns (drop_one i p)) = map snd (p_conns p)"
  by (auto simp: drop_one_def map_update split: prod.splits option.splits)
    (metis list_update_id length_map nth_map snd_conv list_update_beyond not_le)

lemma drop_all_frame [simp]:
  "p_stops (foldr drop_one is p) = p_stops p" "p_gate (foldr drop_one is p) = p_gate p"
  "map snd (p_conns (foldr drop_one is p)) = map snd (p_conns p)"
  by (induction "is") simp_all

lemma drop_one_steps:
  assumes "i < length (p_conns p)"
  shows "proc_steps X W S limits p (drop_one i p)"
proof (cases "p_conns p ! i")
  case (Pair c st)
  show ?thesis
  proof (cases "drop_connection c")
    case (Some d)
    then show ?thesis
      using proc_step.connection_event [of i p c st DropConnection S limits d X W] Pair assms
      by (simp add: drop_one_def r_into_rtranclp)
  qed (simp add: drop_one_def Pair)
qed

lemma drop_all_steps:
  "\<forall>i \<in> set is. i < length (p_conns p) \<Longrightarrow> proc_steps X W S limits p (foldr drop_one is p)"
proof (induction "is")
  case (Cons i "is")
  then show ?case using drop_one_steps [of i "foldr drop_one is p" X W S limits] by (auto intro: rtranclp_trans)
qed simp

lemma call_move_frame:
  "call_move X W S p q \<Longrightarrow> length (p_conns q) = length (p_conns p) \<and> p_stops q = p_stops p"
  by (cases rule: call_move.cases) auto

lemma ready_step:
  assumes "server_step X cfg e s = Some t" "e \<noteq> ShutdownResolves"
  shows "shutdown_ready t = shutdown_ready s"
  using assms
proof (cases e)
  case (Task task te)
  with assms(1) task_step_frame [of X cfg task te s t] show ?thesis by simp
qed (auto simp: serve_select_def drain_step_join_def drain_expires_def drain_ticks_def abort_all_def take_slot_def
      drop_slots_def report_def split: if_splits option.splits arm.splits)

lemma listener_event_ready: "listener_event cfg e \<Longrightarrow> e \<noteq> ShutdownResolves"
  by auto

lemma live_ok_step:
  assumes "sys_step X W S cfg s t" "live_ok s"
  shows "live_ok t"
  using assms(1)
proof cases
  case (listener_turn e t')
  then show ?thesis
    using ready_step [OF listener_turn(3) listener_event_ready [OF listener_turn(2)]] assms(2)
    by (auto simp: live_ok_def after_turn_def)
next
  case (upstream_connected attempt t' cs us)
  then show ?thesis using ready_step [OF upstream_connected(3)] assms(2) by (auto simp: live_ok_def less_Suc_eq)
next
  case (proxy_returned i t')
  then show ?thesis
    using ready_step [OF proxy_returned(4)] assms(2) by (auto simp: live_ok_def dest: notin_set_remove1)
next
  case (proxy_broken i t')
  then show ?thesis
    using ready_step [OF proxy_broken(4)] assms(2) by (auto simp: live_ok_def dest: notin_set_remove1)
qed (use assms(2) in \<open>auto simp: live_ok_def call_move_frame\<close>)

lemma process_simulates:
  assumes "live_ok s" "sys_step X W S cfg s t"
  shows "proc_steps X W S (task_limits cfg) (prc s) (prc t)"
  using assms(2)
proof cases
  case (close_gate n g)
  then show ?thesis using proc_step.stop [of "prc s" n g X W S "task_limits cfg"] by auto
next
  case (publish_gate n)
  then show ?thesis
    using proc_step.publish_stop [of n "prc s" X W S "task_limits cfg"] assms(1) by (auto simp: live_ok_def)
next
  case (listener_turn e t')
  then show ?thesis
    using drop_all_steps [of "live s" "prc s" X W S "task_limits cfg"] assms(1)
    by (auto simp: after_turn_def live_ok_def)
next
  case (upstream_connected attempt t' cs us)
  then show ?thesis
    using proc_step.accepted_connection [of X W S "task_limits cfg" "prc s" cs us] by auto
next
  case (proxy_broken i t')
  then show ?thesis using drop_one_steps [of i "prc s"] assms(1) by (auto simp: live_ok_def)
next
  case (connection_works i c st e c')
  then show ?thesis
    using proc_step.connection_event [of i "prc s" c st e S "task_limits cfg" c' X W] by auto
next
  case (call_works p)
  then show ?thesis using proc_step.call_moves [of X W S "prc s" p "task_limits cfg"] by auto
qed simp_all


interpretation process_sim: simulation "sys_step X W S cfg" "proc_step X W S (task_limits cfg)" prc live_ok
  for X W S cfg
  by unfold_locales (auto intro: live_ok_step process_simulates)

subsection \<open>The system projects to the signal task\<close>

definition signal_of :: "('sem, 'w) sys \<Rightarrow> 'w process" where
  "signal_of s = \<lparr>signal = sig s,
     gate_system = \<lparr>shared = p_gate (prc s), drain_tasks = over (stage_tasks \<circ> snd) (p_conns (prc s))\<rparr>,
     shutdown_signalled = shutdown_ready (srv s)\<rparr>"

lemma over_snd: "over (f \<circ> snd) xs = over f (map snd xs)"
  by (simp add: over_def)

lemma gate_move:
  assumes "call_move X W S p q"
  shows "(drain_step W)\<^sup>*\<^sup>* \<lparr>shared = p_gate p, drain_tasks = over (stage_tasks \<circ> snd) (p_conns p)\<rparr>
    \<lparr>shared = p_gate q, drain_tasks = over (stage_tasks \<circ> snd) (p_conns q)\<rparr>"
proof -
  have "call_move X W S (p\<lparr>p_stops := {#}\<rparr>) (q\<lparr>p_stops := {#}\<rparr>)"
    using assms
  proof cases
    case (enters i c ident raw key n g)
    then show ?thesis using call_move.enters [of i "p\<lparr>p_stops := {#}\<rparr>" c ident raw key n g X W S] by (cases p) simp
  next
    case (refused i c ident raw key e)
    then show ?thesis using call_move.refused [of i "p\<lparr>p_stops := {#}\<rparr>" c ident raw key e X W S] by (cases p) simp
  next
    case (proceeds i c st st' l g log)
    then show ?thesis using call_move.proceeds [of i "p\<lparr>p_stops := {#}\<rparr>" c st X W st' l g log S] by (cases p) simp
  next
    case (returns i c raw r c')
    then show ?thesis using call_move.returns [of i "p\<lparr>p_stops := {#}\<rparr>" c raw r S c' X W] by (cases p) simp
  qed
  from gate_simulates [OF proc_step.call_moves [OF this]] show ?thesis by (simp add: gate_of_def)
qed

lemma relay_calls: "(drain_step W)\<^sup>*\<^sup>* g g' \<Longrightarrow>
    (process_step W)\<^sup>*\<^sup>* \<lparr>signal = pc, gate_system = g, shutdown_signalled = b\<rparr>
      \<lparr>signal = pc, gate_system = g', shutdown_signalled = b\<rparr>"
proof (induction rule: rtranclp_induct)
  case (step g g')
  then show ?case
    using process_step.relay_call [of W "\<lparr>signal = pc, gate_system = g, shutdown_signalled = b\<rparr>" g'] by simp
qed simp

lemma signal_simulates:
  assumes "sys_step X W S cfg s t"
  shows "(process_step W)\<^sup>*\<^sup>* (signal_of s) (signal_of t)"
  using assms
proof cases
  case ctrl_c
  then show ?thesis using process_step.ctrl_c [of "signal_of s" W] by (simp add: signal_of_def)
next
  case (close_gate n g)
  then show ?thesis using process_step.close_gate [of "signal_of s" n g W] by (simp add: signal_of_def)
next
  case (publish_gate n)
  then show ?thesis using process_step.publish_gate [of "signal_of s" n W] by (simp add: signal_of_def)
next
  case (send_shutdown t')
  then show ?thesis using process_step.send_shutdown [of "signal_of s" W] by (auto simp: signal_of_def)
next
  case (listener_turn e t')
  then show ?thesis
    using ready_step [of X cfg e "srv s" t'] listener_event_ready [of cfg e]
    by (auto simp: signal_of_def after_turn_def over_snd)
next
  case (upstream_connected attempt t' cs us)
  then show ?thesis using ready_step [OF upstream_connected(3)] by (simp add: signal_of_def)
next
  case (proxy_returned i t')
  then show ?thesis using ready_step [OF proxy_returned(4)] by (simp add: signal_of_def)
next
  case (proxy_broken i t')
  then show ?thesis using ready_step [OF proxy_broken(4)] by (simp add: signal_of_def over_snd)
next
  case (connection_works i c st e c')
  then show ?thesis by (simp add: signal_of_def over_unchanged)
next
  case (call_works p)
  then show ?thesis using relay_calls [OF gate_move [OF call_works(2)]] by (simp add: signal_of_def)
qed

interpretation signal_sim: simulation "sys_step X W S cfg" "process_step W" signal_of "\<lambda>s. True"
  for X W S cfg
  by unfold_locales (auto intro: signal_simulates)

subsection \<open>Connections and their tasks\<close>

text \<open>
  A connection of the process either belongs to a task of the listener that proxies, or its
  supervisor is done, or it was dropped, which happens only when a task broke or was cancelled.
\<close>

definition supervisor :: "('sem, 'w) proc \<Rightarrow> nat \<Rightarrow> supervisor_pc" where
  "supervisor p i = s_pc (fst (p_conns p ! i))"

fun disturbed_phase :: "server_phase \<Rightarrow> bool" where
  "disturbed_phase (Returned (Inl e)) = True"
| "disturbed_phase (Returned (Inr rep)) = (\<not> all_connections_drained rep)"
| "disturbed_phase _ = False"

definition disturbed :: "'sem server \<Rightarrow> bool" where
  "disturbed s \<longleftrightarrow> Broken \<in># connections s \<or> disturbed_phase (phase s)"

definition tasks_inv :: "('sem, 'w) sys \<Rightarrow> bool" where
  "tasks_inv s \<longleftrightarrow> account_inv (srv s) \<and> length (live s) = count (connections (srv s)) Proxying
     \<and> (\<forall>i < length (p_conns (prc s)). i \<in> set (live s) \<or> supervisor (prc s) i = SDone
          \<or> supervisor (prc s) i = SDropped \<and> disturbed (srv s))"

lemma supervisor_drop_one:
  "i < length (p_conns p) \<Longrightarrow> supervisor (drop_one i p) i \<in> {SDone, SDropped}"
  "j \<noteq> i \<Longrightarrow> supervisor (drop_one i p) j = supervisor p j"
  by (auto simp: supervisor_def drop_one_def drop_connection_def split: prod.splits if_splits)

lemma supervisor_drop_all:
  "j \<notin> set is \<Longrightarrow> supervisor (foldr drop_one is p) j = supervisor p j"
  "j \<in> set is \<Longrightarrow> j < length (p_conns p) \<Longrightarrow> supervisor (foldr drop_one is p) j \<in> {SDone, SDropped}"
proof (induction "is")
  case (Cons i "is")
  {
    case 1
    then show ?case using Cons by (simp add: supervisor_drop_one)
  next
    case 2
    then show ?case
      using Cons supervisor_drop_one(1) [of i "foldr drop_one is p"] supervisor_drop_one(2) [of j i "foldr drop_one is p"]
      by (cases "j = i") auto
  }
qed simp_all

lemma supervisor_ended_stays:
  assumes "conn_step S limits e c = Some c'" "s_pc c = SDone \<or> s_pc c = SDropped"
  shows "s_pc c' = s_pc c"
proof (cases "(\<exists>t. e = Select t) \<or> e \<in> {SupervisorPoll, FlushExpires, DropConnection}")
  case True
  with assms show ?thesis
    by (auto simp: supervisor_select_def supervisor_poll_def flush_expires_def drop_connection_def split: if_splits)
next
  case False
  then show ?thesis using supervisor_pc_stays [OF assms(1)] by blast
qed

lemma supervisor_call_move:
  assumes "call_move X W S p q"
  shows "supervisor q i = supervisor p i"
  using assms
proof cases
  case (returns j c raw r c')
  then have "s_pc c' = s_pc c"
    by (auto simp: relay_returns_def split: client_pc.splits option.splits)
  with returns show ?thesis by (cases "i = j") (auto simp: supervisor_def)
qed (auto simp: supervisor_def nth_list_update)

lemma disturbed_step:
  assumes "server_step X cfg e s = Some t" "disturbed s"
  shows "disturbed t"
proof (cases e)
  case (Task task te)
  then obtain task' where "task \<in># connections s" "task_result cfg (shutdown_sent s) te task = Some task'"
    "connections t = add_mset task' (connections s - {#task#})" "phase t = phase s"
    using assms(1) by (auto simp: task_step_def drop_slots_def split: if_splits option.splits)
  moreover from this(2) have "task \<noteq> Broken"
    by (cases "(cfg, shutdown_sent s, te, task)" rule: task_result.cases) auto
  ultimately show ?thesis using assms(2) by (auto simp: disturbed_def in_diff_count)
qed (use assms in \<open>auto simp: disturbed_def serve_select_def drain_step_join_def drain_expires_def drain_ticks_def
      abort_all_def drop_slots_def take_slot_def report_def in_diff_count split: if_splits option.splits arm.splits\<close>)

lemma quiet_step:
  assumes "server_step X cfg e s = Some t" "listener_event cfg e" "\<not> returned (phase t)"
  shows "count (connections t) Proxying = count (connections s) Proxying"
proof (cases e)
  case (Task task te)
  then obtain task' where task: "task \<in># connections s" "task_result cfg (shutdown_sent s) te task = Some task'"
    "connections t = add_mset task' (connections s - {#task#})"
    using assms(1) by (auto simp: task_step_def drop_slots_def split: if_splits option.splits)
  moreover have "task \<noteq> Proxying \<and> task' \<noteq> Proxying"
    using task(2) assms(2) Task
    by (cases "(cfg, shutdown_sent s, te, task)" rule: task_result.cases) (auto split: if_splits)
  ultimately show ?thesis by auto
qed (use assms in \<open>auto simp: serve_select_def drain_step_join_def drain_expires_def drain_ticks_def
      abort_all_def drop_slots_def take_slot_def report_def split: if_splits option.splits arm.splits\<close>)

lemma returned_no_tasks:
  assumes "account_inv s" "returned (phase s)"
  shows "connections s = {#}"
  using assms by (auto simp: account_inv_def split: server_phase.splits sum.splits)

lemma quiet_return:
  assumes "server_step X cfg e s = Some t" "account_inv s" "returned (phase t)" "\<not> disturbed t"
  shows "connections s = {#}"
proof (cases e)
  case (Task task te)
  with assms task_step_frame [of X cfg task te s t] returned_no_tasks [of s] show ?thesis by auto
next
  case ShutdownResolves
  with assms returned_no_tasks [of s] show ?thesis by auto
qed (use assms in \<open>auto simp: disturbed_def serve_select_def drain_step_join_def drain_expires_def drain_ticks_def
      abort_all_def drop_slots_def take_slot_def report_def split: if_splits option.splits arm.splits\<close>)

lemma proxying_task:
  assumes "task_step X cfg Proxying te s = Some t"
  shows "count (connections s) Proxying = Suc (count (connections t) Proxying)"
    and "te = Breaks \<Longrightarrow> disturbed t"
  using assms
  by (cases te; auto simp: task_step_def disturbed_def drop_slots_def split: if_splits option.splits
      dest: count_greater_zero_iff [THEN iffD2])+

lemma connected_task:
  assumes "task_step X cfg Connecting (ConnectReady attempt) s = Some t" "task_connect cfg attempt"
  shows "count (connections t) Proxying = Suc (count (connections s) Proxying)"
  using assms by (auto simp: task_step_def drop_slots_def split: if_splits option.splits)

lemma tasks_inv_turn:
  assumes "tasks_inv s" "live_ok s" "listener_event cfg e" "server_step X cfg e (srv s) = Some t"
  shows "tasks_inv (after_turn t s)"
proof -
  note inv = assms(1) [unfolded tasks_inv_def]
  have acc: "account_inv t" using account_inv_step [OF assms(4)] inv by blast
  have stays: "disturbed (srv s) \<Longrightarrow> disturbed t" using disturbed_step [OF assms(4)] .
  show ?thesis
  proof (cases "returned (phase t)")
    case True
    have "live s = []" if "\<not> disturbed t"
      using quiet_return [OF assms(4) _ True that] inv by auto
    then show ?thesis
      using True acc inv stays returned_no_tasks [OF acc True] supervisor_drop_all [of _ "live s" "prc s"]
      by (fastforce simp: tasks_inv_def after_turn_def)
  next
    case False
    then show ?thesis
      using quiet_step [OF assms(4,3) False] acc inv stays by (auto simp: tasks_inv_def after_turn_def)
  qed
qed

lemma tasks_inv_step:
  assumes "sys_step X W S cfg s t" "tasks_inv s" "live_ok s"
  shows "tasks_inv t"
  using assms(1)
proof cases
  case (listener_turn e t')
  then show ?thesis using tasks_inv_turn [OF assms(2,3)] by simp
next
  case (send_shutdown t')
  then show ?thesis
    using account_inv_step [OF send_shutdown(3)] assms(2) by (auto simp: tasks_inv_def disturbed_def)
next
  case (upstream_connected attempt t' cs us)
  then show ?thesis
    using account_inv_step [OF upstream_connected(3)] disturbed_step [OF upstream_connected(3)]
      connected_task [of X cfg attempt "srv s" t'] assms(2)
    by (auto simp: tasks_inv_def supervisor_def nth_append less_Suc_eq)
next
  case (proxy_returned i t')
  then show ?thesis
    using account_inv_step [OF proxy_returned(4)] disturbed_step [OF proxy_returned(4)]
      proxying_task(1) [of X cfg ProxyReturns "srv s" t'] assms(2,3)
    by (auto simp: tasks_inv_def supervisor_def live_ok_def length_remove1 set_remove1_eq)
next
  case (proxy_broken i t')
  then show ?thesis
    using account_inv_step [OF proxy_broken(4)] disturbed_step [OF proxy_broken(4)]
      proxying_task [of X cfg Breaks "srv s" t'] assms(2,3) supervisor_drop_one(2) [of _ i "prc s"]
      supervisor_drop_one(1) [of i "prc s"]
    by (force simp: tasks_inv_def live_ok_def length_remove1 set_remove1_eq)
next
  case (connection_works i c st e c')
  then show ?thesis
    using supervisor_ended_stays [OF connection_works(6)] assms(2)
    by (auto simp: tasks_inv_def supervisor_def nth_list_update)
next
  case (call_works p)
  then show ?thesis
    using supervisor_call_move [OF call_works(2)] call_move_frame [OF call_works(2)] assms(2)
    by (simp add: tasks_inv_def)
qed (use assms(2) in \<open>auto simp: tasks_inv_def supervisor_def\<close>)

subsection \<open>Reachable states\<close>

definition sys_reach :: "'sem semaphore \<Rightarrow> 'w watch_channel \<Rightarrow> serde \<Rightarrow> config \<Rightarrow> ('sem, 'w) sys \<Rightarrow> bool" where
  "sys_reach X W S cfg s \<longleftrightarrow> (\<exists>bind_error. sys_steps X W S cfg (sys_start X W cfg bind_error) s)"

lemma sys_reach_step: "sys_reach X W S cfg s \<Longrightarrow> sys_steps X W S cfg s t \<Longrightarrow> sys_reach X W S cfg t"
  unfolding sys_reach_def by (meson rtranclp_trans)

lemma sys_start_ok: "live_ok (sys_start X W cfg b) \<and> tasks_inv (sys_start X W cfg b)"
  by (auto simp: live_ok_def tasks_inv_def sys_start_def proc_start_def serve_start_def account_inv_def
      split: option.splits)

lemma sys_reach_ok:
  assumes "sys_reach X W S cfg s"
  shows "live_ok s" and "tasks_inv s"
proof -
  obtain b where "sys_steps X W S cfg (sys_start X W cfg b) s" using assms by (auto simp: sys_reach_def)
  then have "live_ok s \<and> tasks_inv s"
    by (induction rule: rtranclp_induct) (use sys_start_ok live_ok_step tasks_inv_step in blast)+
  then show "live_ok s" "tasks_inv s" by simp_all
qed

lemma sys_reach_proc:
  assumes "sys_reach X W S cfg s"
  shows "proc_steps X W S (task_limits cfg)
    (proc_start X W (max_concurrent_broadcasts cfg) MAX_CONFIGURABLE_IN_FLIGHT_BROADCAST_BYTES) (prc s)"
proof -
  obtain b where "sys_steps X W S cfg (sys_start X W cfg b) s" using assms by (auto simp: sys_reach_def)
  with process_sim.steps_simulate [of X W S cfg] sys_start_ok [of X W cfg b] show ?thesis
    by (fastforce simp: sys_start_def)
qed

lemma sys_reach_signal:
  assumes "sys_reach X W S cfg s"
  shows "(process_step W)\<^sup>*\<^sup>* (process_start W) (signal_of s)"
proof -
  obtain b where "sys_steps X W S cfg (sys_start X W cfg b) s" using assms by (auto simp: sys_reach_def)
  moreover have "signal_of (sys_start X W cfg b) = process_start W"
    by (simp add: signal_of_def sys_start_def process_start_def proc_start_def drain_init_def serve_start_def)
  ultimately show ?thesis using signal_sim.steps_simulate [of X W S cfg] by metis
qed

lemma listener_steps_run: "(listener_step X cfg)\<^sup>*\<^sup>* s t \<Longrightarrow> \<exists>es. server_run X cfg es s = Some t"
proof (induction rule: rtranclp_induct)
  case base
  show ?case by (intro exI [of _ "[]"]) simp
next
  case (step t u)
  then obtain es e where "server_run X cfg es s = Some t" "server_step X cfg e t = Some u"
    by (auto simp: listener_step_def)
  then show ?case by (intro exI [of _ "es @ [e]"]) (simp add: server_run_append)
qed

lemma sys_reach_listener:
  assumes "sys_reach X W S cfg s"
  shows "\<exists>b es. server_run X cfg es (serve_start X cfg b) = Some (srv s)"
proof -
  obtain b where "sys_steps X W S cfg (sys_start X W cfg b) s" using assms by (auto simp: sys_reach_def)
  then have "(listener_step X cfg)\<^sup>*\<^sup>* (serve_start X cfg b) (srv s)"
    using listener_sim.steps_simulate [of X W S cfg "sys_start X W cfg b" s] by (simp add: sys_start_def)
  then show ?thesis using listener_steps_run by blast
qed

lemma sys_reach_gate:
  assumes "sys_reach X W S cfg s" "shutdown_ready (srv s)"
  shows "\<not> is_accepting (p_gate (prc s))"
  using process_steps_inv [OF sys_reach_signal [OF assms(1)]] assms(2)
  by (simp add: process_inv_def signal_of_def)

lemma sys_entry:
  assumes "sys_reach X W S cfg s" "(c, st) \<in> set (p_conns (prc s))"
  shows "is_run S (task_limits cfg) c" "call_matches (c, st)"
  using reachable_account [OF sys_reach_proc [OF assms(1)]] assms(2) by (auto simp: entries_ok_def)

definition all_finished :: "conn \<Rightarrow> bool" where
  "all_finished c \<longleftrightarrow> c_finished (c_pc c) \<and> u_finished (u_pc c) \<and> w_finished (w_pc c)"

lemma run_done_finished:
  assumes "is_run S limits c" "s_pc c = SDone"
  shows "all_finished c"
  using assms run_invs(8) [of S limits _ _ _ c] by (fastforce simp: is_run_def all_finished_def)

text \<open>As long as no task broke or was cancelled, what is not finished belongs to a live task.\<close>

lemma unfinished_live:
  assumes "sys_reach X W S cfg s" "\<not> disturbed (srv s)" "i < length (p_conns (prc s))"
    and "\<not> all_finished (fst (p_conns (prc s) ! i))"
  shows "i \<in> set (live s)"
proof (rule ccontr)
  assume "i \<notin> set (live s)"
  with sys_reach_ok(2) [OF assms(1)] assms(2,3) have "s_pc (fst (p_conns (prc s) ! i)) = SDone"
    by (auto simp: tasks_inv_def supervisor_def)
  with run_done_finished sys_entry(1) [OF assms(1), of "fst (p_conns (prc s) ! i)"] assms(3,4) show False
    by (metis nth_mem prod.collapse)
qed

subsection \<open>Buffers\<close>

lemma channel_step:
  assumes "conn_step S limits e c = Some c'" "length (channel c) \<le> CHANNEL_FRAMES"
  shows "length (channel c') \<le> CHANNEL_FRAMES"
proof (cases e)
  case ClientPoll
  with assms show ?thesis
    by (auto simp: client_poll_def client_read_def client_reserve_def channel_send_def
        split: client_pc.splits sum.splits prod.splits option.splits io_error_kind.splits if_splits reservation.splits)
next
  case UpstreamPoll
  with assms show ?thesis
    by (auto simp: upstream_poll_def channel_send_def
        split: upstream_pc.splits sum.splits prod.splits option.splits pending_request.splits if_splits)
qed (use assms in \<open>auto simp: step_defs split: step_splits\<close>)

lemma run_buffers:
  assumes "is_run S limits c"
  shows "length (channel c) \<le> CHANNEL_FRAMES" and "length (pending_table c) \<le> unat (limit_pending limits)"
proof -
  obtain cs us es where run: "conn_run S limits es (proxy_streams_start cs us) = Some c"
    using assms by (auto simp: is_run_def)
  have "length (channel (proxy_streams_start cs us)) \<le> CHANNEL_FRAMES" by (simp add: proxy_streams_start_def)
  then show "length (channel c) \<le> CHANNEL_FRAMES"
    using conn_run_invariant [OF run, where P = "\<lambda>c. length (channel c) \<le> CHANNEL_FRAMES"] channel_step by blast
  show "length (pending_table c) \<le> unat (limit_pending limits)"
    using run_invs(4) [OF run] by (simp add: table_inv_def)
qed

lemma sum_list_le_length: "(\<And>x. x \<in> set xs \<Longrightarrow> f x \<le> (k :: nat)) \<Longrightarrow> sum_list (map f xs) \<le> length xs * k"
  using sum_list_mono [of xs f "\<lambda>x. k"] by (simp add: sum_list_triv)

definition at_work :: "('sem, 'w) sys \<Rightarrow> conn list" where
  "at_work s = filter (\<lambda>c. \<not> all_finished c) (map fst (p_conns (prc s)))"

lemma at_work_bounded:
  assumes "semaphore_laws X" "sys_reach X W S cfg s" "\<not> disturbed (srv s)"
  shows "length (at_work s) \<le> unat (max_connections cfg)"
proof -
  have "{i. i < length (p_conns (prc s)) \<and> \<not> all_finished (map fst (p_conns (prc s)) ! i)} \<subseteq> set (live s)"
    using unfinished_live [OF assms(2,3)] by auto
  then have "length (at_work s) \<le> card (set (live s))"
    unfolding at_work_def length_filter_conv_card by (auto intro: card_mono)
  also have "\<dots> \<le> length (live s)" by (rule card_length)
  also have "\<dots> = count (connections (srv s)) Proxying"
    using sys_reach_ok(2) [OF assms(2)] by (simp add: tasks_inv_def)
  also have "\<dots> \<le> size (filter_mset holds_slot (connections (srv s)))"
    using count_le_size [of "filter_mset holds_slot (connections (srv s))" Proxying] by simp
  also have "\<dots> \<le> unat (max_connections cfg)"
  proof -
    obtain b es where "server_run X cfg es (serve_start X cfg b) = Some (srv s)"
      using sys_reach_listener [OF assms(2)] by blast
    from connections_bounded [OF assms(1) this] show ?thesis by simp
  qed
  finally show ?thesis .
qed

lemma at_work_run: "sys_reach X W S cfg s \<Longrightarrow> c \<in> set (at_work s) \<Longrightarrow> is_run S (task_limits cfg) c"
  using sys_entry(1) [of X W S cfg s c] by (auto simp: at_work_def)

subsection \<open>The end of a drained shutdown\<close>

lemma drained_idle:
  assumes "sys_reach X W S cfg s" "phase (srv s) = Returned (Inr rep)" "all_connections_drained rep"
  shows "\<forall>(c, st) \<in> set (p_conns (prc s)). all_finished c \<and> call_over st"
proof -
  have inv: "tasks_inv s" using sys_reach_ok(2) [OF assms(1)] .
  then have "connections (srv s) = {#}"
    using returned_no_tasks [of "srv s"] assms(2) by (simp add: tasks_inv_def)
  then have quiet: "\<not> disturbed (srv s)" "live s = []"
    using inv assms(2,3) by (auto simp: disturbed_def tasks_inv_def)
  show ?thesis
  proof safe
    fix c st assume mem: "(c, st) \<in> set (p_conns (prc s))"
    then obtain i where "i < length (p_conns (prc s))" "p_conns (prc s) ! i = (c, st)"
      by (auto simp: in_set_conv_nth)
    with unfinished_live [OF assms(1) quiet(1), of i] quiet(2) show fin: "all_finished c" by auto
    from sys_entry(2) [OF assms(1) mem] fin show "call_over st"
      by (simp add: call_matches_def all_finished_def)
  qed
qed

lemma over_empty: "(\<And>x. x \<in> set xs \<Longrightarrow> f x = []) \<Longrightarrow> over f xs = {#}"
  by (simp add: over_def)

lemma call_over_empty: "call_over st \<Longrightarrow> stage_calls st = [] \<and> stage_tasks st = []"
  by (cases st) auto

lemma admitted_stops [simp]: "admitted (image_mset PublishStop M) = {#}"
  by (induction M) (auto simp: admitted_def)

lemma idle_relay:
  assumes "sys_reach X W S cfg s" "\<forall>(c, st) \<in> set (p_conns (prc s)). call_over st"
  shows "active_calls (p_gate (prc s)) = 0" and "calls (limiter_of (prc s)) = {#}"
proof -
  have none: "over (stage_tasks \<circ> snd) (p_conns (prc s)) = {#}" "over (stage_calls \<circ> snd) (p_conns (prc s)) = {#}"
    using assms(2) call_over_empty by (auto intro!: over_empty)
  then show "calls (limiter_of (prc s)) = {#}" by (simp add: limiter_of_def)
  have "unat (active_calls (p_gate (prc s))) = 0"
    using gate_inv_reachable [OF sys_reach_proc [OF assms(1)]] none
    by (simp add: drain_inv_def gate_of_def counts_def active_calls_def)
  then show "active_calls (p_gate (prc s)) = 0" by (simp add: unat_eq_zero)
qed

subsection \<open>Shutdown of the system\<close>

text \<open>
  What is left to happen when every connection task hangs: the signal task acts (the only steps
  that change \<open>sig\<close>), and the listener leaves its loop, lets the clock run, finds the set of
  tasks empty or reaches the deadline.
\<close>

fun stop_event :: "server_event \<Rightarrow> bool" where
  "stop_event (Turn ShutdownArm) = True"
| "stop_event (Join None) = True"
| "stop_event (Ticks n) = True"
| "stop_event Deadline = True"
| "stop_event _ = False"

inductive stop_step ::
  "'sem semaphore \<Rightarrow> 'w watch_channel \<Rightarrow> serde \<Rightarrow> config \<Rightarrow> ('sem, 'w) sys \<Rightarrow> ('sem, 'w) sys \<Rightarrow> bool"
  for X :: "'sem semaphore" and W :: "'w watch_channel" and S cfg where
  signal_acts: "sys_step X W S cfg s t \<Longrightarrow> sig t \<noteq> sig s \<Longrightarrow> stop_step X W S cfg s t"
| listener_stops: "stop_event e \<Longrightarrow> server_step X cfg e (srv s) = Some t \<Longrightarrow> stop_step X W S cfg s (after_turn t s)"

lemma stop_event_listener: "stop_event e \<Longrightarrow> listener_event cfg e"
  by (cases e rule: stop_event.cases) auto

lemma stop_step_sys: "stop_step X W S cfg s t \<Longrightarrow> sys_step X W S cfg s t"
  by (cases rule: stop_step.cases) (auto intro: sys_step.listener_turn stop_event_listener)

definition within :: "nat \<Rightarrow> ('a \<Rightarrow> 'a \<Rightarrow> bool) \<Rightarrow> 'a \<Rightarrow> 'a \<Rightarrow> bool" where
  "within k R s t \<longleftrightarrow> (\<exists>n \<le> k. (R ^^ n) s t)"

lemma within_refl [simp]: "within k R s s"
  unfolding within_def by (intro exI [of _ 0]) simp

lemma within_one: "R s t \<Longrightarrow> within 1 R s t"
  unfolding within_def by (intro exI [of _ 1]) (simp add: eq_OO)

lemma within_trans: "within j R s t \<Longrightarrow> within k R t u \<Longrightarrow> within (j + k) R s u"
  unfolding within_def by (metis add_mono relpowp_add relcompp.relcompI)

lemma within_mono: "within j R s t \<Longrightarrow> j \<le> k \<Longrightarrow> within k R s t"
  unfolding within_def by (meson le_trans)

lemma within_stop_sys: "within k (stop_step X W S cfg) s t \<Longrightarrow> sys_steps X W S cfg s t"
proof -
  assume "within k (stop_step X W S cfg) s t"
  then have "(stop_step X W S cfg)\<^sup>*\<^sup>* s t" unfolding within_def by (blast dest: relpowp_imp_rtranclp)
  then show ?thesis using rtranclp_mono [of "stop_step X W S cfg" "sys_step X W S cfg"] stop_step_sys by blast
qed

text \<open>The connections and the relay calls are as they were.\<close>

definition untouched :: "('sem, 'w) sys \<Rightarrow> ('sem, 'w) sys \<Rightarrow> bool" where
  "untouched s t \<longleftrightarrow> p_conns (prc t) = p_conns (prc s) \<and> adapter_log (prc t) = adapter_log (prc s) \<and> live t = live s"

lemma signal_stops:
  assumes "live_ok s"
  shows "\<exists>t. within 4 (stop_step X W S cfg) s t \<and> sig t = SignalDone
    \<and> srv t = (srv s)\<lparr>shutdown_ready := True\<rparr> \<and> untouched s t"
proof -
  let ?to = "\<lambda>k s. \<exists>t. within k (stop_step X W S cfg) s t \<and> sig t = SignalDone
    \<and> srv t = (srv s)\<lparr>shutdown_ready := True\<rparr> \<and> untouched s t"
  have once: "within 1 (stop_step X W S cfg) s s'" if "sys_step X W S cfg s s'" "sig s' \<noteq> sig s" for s s'
    by (rule within_one) (rule stop_step.signal_acts [OF that])
  have hop: "?to (1 + k) s"
    if "sys_step X W S cfg s s'" "sig s' \<noteq> sig s" "srv s' = srv s" "untouched s s'" "?to k s'" for s s' k
    using that within_trans [OF once [OF that(1,2)], of k] by (force simp: untouched_def)
  have finished: "?to 0 s" if "sig s = SignalDone" "shutdown_ready (srv s)" for s
    using that by (intro exI [of _ s]) (simp add: untouched_def)
  have send: "?to 1 s" if "sig s = SendShutdown" for s
    using once [OF sys_step.send_shutdown [OF that, of X cfg "(srv s)\<lparr>shutdown_ready := True\<rparr>" W S]] that
    by (intro exI [of _ "s\<lparr>sig := SignalDone, srv := (srv s)\<lparr>shutdown_ready := True\<rparr>\<rparr>"])
      (simp add: untouched_def)
  have publish: "?to (1 + 1) s" if "sig s = PublishShutdown n" for s n
    by (rule hop [OF sys_step.publish_gate [OF that] _ _ _ send]) (simp_all add: untouched_def that)
  have close: "?to (1 + (1 + 1)) s" if "sig s = BeginShutdown" for s
    by (rule hop [OF sys_step.close_gate [OF that prod.collapse [symmetric]] _ _ _ publish])
      (simp_all add: untouched_def that)
  have await: "?to (1 + (1 + (1 + 1))) s" if "sig s = AwaitSignal" for s
    by (rule hop [OF sys_step.ctrl_c [OF that] _ _ _ close]) (simp_all add: untouched_def that)
  have le: "?to 4 s" if "?to k s" "k \<le> 4" for k s
    using that(1) by (rule ex_forward) (rule conj_forward, assumption, rule within_mono [OF _ that(2)])
  show ?thesis
  proof (cases "sig s")
    case AwaitSignal
    then show ?thesis by (intro le [OF await]) simp_all
  next
    case BeginShutdown
    then show ?thesis by (intro le [OF close]) simp_all
  next
    case (PublishShutdown n)
    then show ?thesis by (intro le [OF publish]) simp_all
  next
    case SendShutdown
    then show ?thesis by (intro le [OF send]) simp_all
  next
    case SignalDone
    then show ?thesis using assms by (intro le [OF finished]) (simp_all add: live_ok_def)
  qed
qed

lemma p_conns_drop_cong: "p_conns p = p_conns q \<Longrightarrow> p_conns (foldr drop_one is p) = p_conns (foldr drop_one is q)"
  by (induction "is") (auto simp: drop_one_def split: prod.splits option.splits)

lemma adapter_log_drop [simp]: "adapter_log (foldr drop_one is p) = adapter_log p"
  by (induction "is") (auto simp: drop_one_def split: prod.splits option.splits)

text \<open>How a drain ends: what it reports, and that it dropped the tasks that were live.\<close>

definition drained_to :: "('sem, 'w) sys \<Rightarrow> ('sem, 'w) sys \<Rightarrow> bool" where
  "drained_to s t \<longleftrightarrow>
     phase (srv t) = Returned (Inr \<lparr>all_connections_drained = (connections (srv s) = {#})\<rparr>)
     \<and> sig t = sig s \<and> live t = [] \<and> p_conns (prc t) = p_conns (foldr drop_one (live s) (prc s))
     \<and> adapter_log (prc t) = adapter_log (prc s)"

lemma drain_stops:
  assumes "phase (srv s) = DrainingConnections"
  shows "\<exists>t. within 2 (stop_step X W S cfg) s t \<and> drained_to s t"
proof (cases "connections (srv s) = {#}")
  case True
  have "stop_step X W S cfg s (after_turn (report True (srv s)) s)"
    by (rule stop_step.listener_stops [of "Join None"]) (simp_all add: drain_step_join_def assms True)
  moreover have "drained_to s (after_turn (report True (srv s)) s)"
    by (simp add: drained_to_def after_turn_def report_def True)
  ultimately show ?thesis using within_mono [OF within_one] by (metis one_le_numeral)
next
  case False
  let ?late = "as_nanos (maximum_wait cfg) - drain_nanos (srv s)"
  define s' where "s' = s\<lparr>srv := (srv s)\<lparr>drain_nanos := max (drain_nanos (srv s)) (as_nanos (maximum_wait cfg))\<rparr>\<rparr>"
  define t where "t = report False (abort_all X (srv s'))"
  have "within 1 (stop_step X W S cfg) s s'"
  proof (cases "drain_nanos (srv s) < as_nanos (maximum_wait cfg)")
    case True
    then have "after_turn (srv s') s = s'" using assms by (simp add: s'_def after_turn_def)
    moreover have "stop_step X W S cfg s (after_turn (srv s') s)"
      by (rule stop_step.listener_stops [of "Ticks ?late"]) (use True in \<open>simp_all add: drain_ticks_def assms s'_def max_def\<close>)
    ultimately show ?thesis using within_one by metis
  qed (simp add: s'_def max_def)
  moreover have "stop_step X W S cfg s' (after_turn t s')"
    by (rule stop_step.listener_stops [of Deadline])
      (use False in \<open>simp_all add: drain_expires_def assms s'_def t_def\<close>)
  ultimately have "within (1 + 1) (stop_step X W S cfg) s (after_turn t s')" by (blast intro: within_trans within_one)
  moreover have "drained_to s (after_turn t s')"
    using False by (simp add: drained_to_def after_turn_def report_def t_def s'_def)
  ultimately show ?thesis by (metis one_add_one)
qed

lemma shutdown_completes:
  assumes "live_ok s" "account_inv (srv s)" "\<not> returned (phase (srv s))" "shutdown_ready (srv s) \<Longrightarrow> sig s = SignalDone"
  shows "\<exists>t. within 7 (stop_step X W S cfg) s t \<and> sig t = SignalDone \<and> drained_to (s\<lparr>sig := SignalDone\<rparr>) t"
proof (cases "phase (srv s)")
  case Serving
  obtain u where u: "within 4 (stop_step X W S cfg) s u" "sig u = SignalDone"
    "srv u = (srv s)\<lparr>shutdown_ready := True\<rparr>" "untouched s u"
    using signal_stops [OF assms(1)] by blast
  let ?d = "(srv u)\<lparr>phase := DrainingConnections, shutdown_sent := True\<rparr>"
  have "stop_step X W S cfg u (after_turn ?d u)"
    by (rule stop_step.listener_stops [of "Turn ShutdownArm"]) (simp_all add: serve_select_def u(3) Serving)
  then have turn: "within 1 (stop_step X W S cfg) u (u\<lparr>srv := ?d\<rparr>)"
    using within_one [of "stop_step X W S cfg" u] by (simp add: after_turn_def)
  obtain t where t: "within 2 (stop_step X W S cfg) (u\<lparr>srv := ?d\<rparr>) t" "drained_to (u\<lparr>srv := ?d\<rparr>) t"
    using drain_stops [of "u\<lparr>srv := ?d\<rparr>" X W S cfg] by auto
  have "within (4 + 1 + 2) (stop_step X W S cfg) s t"
    using within_trans [OF within_trans [OF u(1) turn] t(1)] .
  moreover have "drained_to (s\<lparr>sig := SignalDone\<rparr>) t"
    using t(2) u(2-4) p_conns_drop_cong [of "prc u" "prc s" "live s"] by (simp add: drained_to_def untouched_def)
  ultimately show ?thesis using u(2) t(2) by (intro exI [of _ t]) (simp add: drained_to_def)
next
  case DrainingConnections
  then have done_sig: "sig s = SignalDone" using assms(2,4) by (simp add: account_inv_def)
  then have "s\<lparr>sig := SignalDone\<rparr> = s" by simp
  moreover obtain t where "within 2 (stop_step X W S cfg) s t" "drained_to s t"
    using drain_stops [OF DrainingConnections] by blast
  moreover from this have "within 7 (stop_step X W S cfg) s t" "sig t = SignalDone"
    using done_sig by (auto simp: drained_to_def elim: within_mono)
  ultimately show ?thesis by metis
qed (use assms(3) in simp)

end
