(* ===== verification/Process_Props.thy ===== *)
theory Process_Props
  imports Process
begin

text \<open>
  The properties of the whole process: for every number of connections, every schedule of their
  tasks and of the calls they share the relay with, and every behaviour of the wallets, the
  upstream and the adapter.
\<close>

subsection \<open>A concrete process\<close>

text \<open>One connection with one broadcast, under the default configuration.\<close>

definition tx_frame :: bytes where "tx_frame = ''b00ff'' @ [newline]"

definition tx_serde :: serde where
  "tx_serde = printer_serde
     [(tx_frame, \<lparr>req_id = Some (num 7), req_method = BROADCAST_METHOD, req_params = Some (Array [String ''00ff''])\<rparr>)] [] []"

definition tx_client :: byte_stream where "tx_client = \<lparr>incoming = tx_frame, finish = Eof\<rparr>"
definition tx_upstream :: byte_stream where "tx_upstream = \<lparr>incoming = [], finish = Eof\<rparr>"

abbreviation tx_step :: "(nat, usize) proc \<Rightarrow> (nat, usize) proc \<Rightarrow> bool" where
  "tx_step \<equiv> proc_step counter_semaphore cell_watch tx_serde (task_limits demo_config)"

definition tx_init :: "(nat, usize) proc" where
  "tx_init = proc_start counter_semaphore cell_watch (max_concurrent_broadcasts demo_config)
     MAX_CONFIGURABLE_IN_FLIGHT_BROADCAST_BYTES"

definition tx_start :: conn where "tx_start = proxy_streams_start tx_client tx_upstream"

definition tx_waiting :: conn where
  "tx_waiting = the (conn_run tx_serde (task_limits demo_config) [ClientPoll, ClientPoll, ClientPoll] tx_start)"

definition tx_answered :: conn where
  "tx_answered = the (relay_returns tx_serde (Inr ''id'') tx_waiting)"

definition tx_proc :: "conn \<Rightarrow> call_stage \<Rightarrow> nat \<Rightarrow> nat \<Rightarrow> bool \<Rightarrow> usize \<Rightarrow> usize \<Rightarrow> usize multiset \<Rightarrow> rstr list \<Rightarrow> (nat, usize) proc" where
  "tx_proc c st slots bytes acc n w stops log =
     \<lparr>p_conns = [(c, st)], p_limiter = \<lparr>requests = slots, payload_bytes = bytes\<rparr>,
      p_gate = \<lparr>drain = \<lparr>accepting = acc, active = n\<rparr>, active_watch = w\<rparr>, p_stops = stops, adapter_log = log\<rparr>"

lemma tx_waiting_run: "conn_run tx_serde (task_limits demo_config) [ClientPoll, ClientPoll, ClientPoll] tx_start = Some tx_waiting"
  and tx_waiting_pc: "c_pc tx_waiting = CRelay (num 7) ''00ff'' (Some ''7'')"
  and tx_answered_returns: "relay_returns tx_serde (Inr ''id'') tx_waiting = Some tx_answered"
  and tx_answered_asked: "asked_for tx_serde tx_answered = [''00ff'']"
  and tx_answered_succeeded: "succeeded tx_answered = [''00ff'']"
  by code_simp+

text \<open>Steps of a connection outside the relay are steps of the process.\<close>

lemma lift_conn_run:
  assumes "conn_run S limits es c = Some c'" "list_all (\<lambda>e. outside_call e st) es"
    and "i < length (p_conns p)" "p_conns p ! i = (c, st)"
  shows "proc_steps X W S limits p (p\<lparr>p_conns := (p_conns p)[i := (c', st)]\<rparr>)"
  using assms
proof (induction es arbitrary: c p)
  case Nil
  then have "(p_conns p)[i := (c', st)] = p_conns p" by (metis conn_run.simps(1) list_update_id option.inject)
  then show ?case by simp
next
  case (Cons e es)
  then obtain d where d: "conn_step S limits e c = Some d" "conn_run S limits es d = Some c'"
    by (auto split: option.splits)
  have "proc_step X W S limits p (p\<lparr>p_conns := (p_conns p)[i := (d, st)]\<rparr>)"
    using proc_step.connection_event [OF Cons.prems(3,4) _ d(1)] Cons.prems(2) by simp
  moreover have "proc_steps X W S limits (p\<lparr>p_conns := (p_conns p)[i := (d, st)]\<rparr>)
      (p\<lparr>p_conns := (p_conns p)[i := (c', st)]\<rparr>)"
    using Cons.IH [OF d(2), of "p\<lparr>p_conns := (p_conns p)[i := (d, st)]\<rparr>"] Cons.prems by simp
  ultimately show ?case by (rule converse_rtranclp_into_rtranclp)
qed

abbreviation tx_budget :: nat where
  "tx_budget \<equiv> unat MAX_CONFIGURABLE_IN_FLIGHT_BROADCAST_BYTES"

lemma tx_call:
  assumes "call_step counter_semaphore cell_watch
      (st, \<lparr>requests = slots, payload_bytes = b\<rparr>, \<lparr>drain = \<lparr>accepting = acc, active = n\<rparr>, active_watch = w\<rparr>, log)
      (st', \<lparr>requests = slots', payload_bytes = b'\<rparr>, \<lparr>drain = \<lparr>accepting = acc, active = n'\<rparr>, active_watch = w'\<rparr>, log')"
  shows "tx_step (tx_proc c st slots b acc n w stops log) (tx_proc c st' slots' b' acc n' w' stops log')"
  using proc_step.call_moves [OF call_move.proceeds [of 0 "tx_proc c st slots b acc n w stops log" c st]] assms
  by (simp add: tx_proc_def)

lemmas tx_defs = call_step_simps u32_try_from_def permits_def publish_def leave_call_def cell_watch_def
  counter_semaphore_def acquire_request_def acquire_payload_def drop_request_def drop_payload_def
  MAX_CONFIGURABLE_IN_FLIGHT_BROADCAST_BYTES_def

lemma tx_reaches_payload:
  "tx_step\<^sup>*\<^sup>* tx_init (tx_proc tx_waiting (AtPayload ''00ff'') 7 tx_budget True 1 1 {#} [])"
proof -
  let ?P = "\<lambda>c st slots n w. tx_proc c st slots tx_budget True n w {#} []"
  have init: "tx_init = \<lparr>p_conns = [], p_limiter = \<lparr>requests = 8, payload_bytes = tx_budget\<rparr>,
      p_gate = \<lparr>drain = \<lparr>accepting = True, active = 0\<rparr>, active_watch = 0\<rparr>, p_stops = {#}, adapter_log = []\<rparr>"
    by (simp add: tx_init_def proc_start_def draining_new_def with_payload_budget_def counter_semaphore_def
        cell_watch_def demo_config_def config_of_cli_def cli_defaults_def config_consts)
  have "tx_step tx_init (?P tx_start NoCall 8 0 0)"
    using proc_step.accepted_connection [of counter_semaphore cell_watch tx_serde "task_limits demo_config" tx_init tx_client tx_upstream]
    by (simp add: init tx_proc_def tx_start_def)
  moreover have "tx_step\<^sup>*\<^sup>* (?P tx_start NoCall 8 0 0) (?P tx_waiting NoCall 8 0 0)"
    using lift_conn_run [OF tx_waiting_run, of NoCall 0 "?P tx_start NoCall 8 0 0" counter_semaphore cell_watch]
    by (simp add: tx_proc_def)
  moreover have "tx_step (?P tx_waiting NoCall 8 0 0) (?P tx_waiting (GateEntered 1 ''00ff'') 8 1 0)"
    using proc_step.call_moves [OF call_move.enters [OF _ _ tx_waiting_pc, of 0 "?P tx_waiting NoCall 8 0 0"]]
    by (simp add: tx_proc_def enter_call_Inr checked_add_def)
  moreover have "tx_step (?P tx_waiting (GateEntered 1 ''00ff'') 8 1 0) (?P tx_waiting (AtLimiter ''00ff'') 8 1 1)"
    by (rule tx_call) (simp add: tx_defs)
  moreover have "tx_step (?P tx_waiting (AtLimiter ''00ff'') 8 1 1) (?P tx_waiting (AtPayload ''00ff'') 7 1 1)"
    by (rule tx_call) (simp add: tx_defs)
  ultimately show ?thesis
    by (meson converse_rtranclp_into_rtranclp rtranclp.rtrancl_into_rtrancl rtranclp_trans)
qed

lemma tx_submits:
  "tx_step (tx_proc tx_waiting (AtPayload ''00ff'') 7 tx_budget acc 1 1 stops [])
     (tx_proc tx_waiting (InAdapterCall ''00ff'') 7 (tx_budget - 4) acc 1 1 stops [''00ff''])"
  by (rule tx_call) (simp add: tx_defs)

lemma tx_reaches_adapter:
  "tx_step\<^sup>*\<^sup>* tx_init (tx_proc tx_waiting (InAdapterCall ''00ff'') 7 (tx_budget - 4) True 1 1 {#} [''00ff''])"
  using tx_reaches_payload tx_submits by (rule rtranclp.rtrancl_into_rtrancl)

lemma tx_reaches_closed:
  "tx_step\<^sup>*\<^sup>* tx_init (tx_proc tx_waiting (AtPayload ''00ff'') 7 tx_budget False 1 1 {#1#} [])"
proof -
  have "tx_step (tx_proc tx_waiting (AtPayload ''00ff'') 7 tx_budget True 1 1 {#} [])
      (tx_proc tx_waiting (AtPayload ''00ff'') 7 tx_budget False 1 1 {#1#} [])"
    using proc_step.stop [of "tx_proc tx_waiting (AtPayload ''00ff'') 7 tx_budget True 1 1 {#} []"]
    by (simp add: tx_proc_def stop_accepting_def)
  with tx_reaches_payload show ?thesis by (rule rtranclp.rtrancl_into_rtrancl)
qed

lemma tx_reaches_answer:
  "tx_step\<^sup>*\<^sup>* tx_init (tx_proc tx_answered NoCall 8 tx_budget True 0 0 {#} [''00ff''])"
proof -
  let ?P = "\<lambda>st slots b n w. tx_proc tx_waiting st slots b True n w {#} [''00ff'']"
  have "tx_step (?P (InAdapterCall ''00ff'') 7 (tx_budget - 4) 1 1) (?P (Unwinding ''00ff'' (Inr ''id'')) 8 tx_budget 1 1)"
    by (rule tx_call) (simp add: tx_defs)
  moreover have "tx_step (?P (Unwinding ''00ff'' (Inr ''id'')) 8 tx_budget 1 1) (?P (GateLeft 0 ''00ff'' (Inr ''id'')) 8 tx_budget 0 1)"
    by (rule tx_call) (simp add: tx_defs)
  moreover have "tx_step (?P (GateLeft 0 ''00ff'' (Inr ''id'')) 8 tx_budget 0 1) (?P (CallDone ''00ff'' (Inr ''id'')) 8 tx_budget 0 0)"
    by (rule tx_call) (simp add: tx_defs)
  moreover have "tx_step (?P (CallDone ''00ff'' (Inr ''id'')) 8 tx_budget 0 0) (tx_proc tx_answered NoCall 8 tx_budget True 0 0 {#} [''00ff''])"
    using proc_step.call_moves [OF call_move.returns [OF _ _ tx_answered_returns, of 0 "?P (CallDone ''00ff'' (Inr ''id'')) 8 tx_budget 0 0"]]
    by (simp add: tx_proc_def)
  ultimately show ?thesis
    using tx_reaches_adapter by (meson rtranclp.rtrancl_into_rtrancl)
qed

lemma tx_serde_fit: "serde_strings_fit tx_serde"
  by (simp add: serde_strings_fit_def tx_serde_def printer_serde_def tx_frame_def)

subsection \<open>Properties of the process\<close>

text \<open>
  C5: no transaction is invented, repeated or reported without being published. In every
  schedule of any number of connections, the transactions given to the adapter are, counted with
  multiplicity, among the broadcast requests that the wallets sent, each a non-empty even number
  of hexadecimal digits; and the calls that returned a success to a connection are, counted with
  multiplicity, among the transactions given to the adapter.
\<close>

theorem process_accounts_for_transactions:
  assumes "proc_steps X W S limits (proc_start X W limit budget) p"
  shows "over (succeeded \<circ> fst) (p_conns p) \<subseteq># mset (adapter_log p)
    \<and> mset (adapter_log p) \<subseteq># over (asked_for S \<circ> fst) (p_conns p)
    \<and> list_all hex_transaction (adapter_log p)"
proof -
  note inv = reachable_account [OF assms]
  have "over (succeeded \<circ> fst) (p_conns p) \<subseteq># over published_by (p_conns p)"
    by (intro over_mono) (auto simp: published_by_def)
  then have succ: "over (succeeded \<circ> fst) (p_conns p) \<subseteq># mset (adapter_log p)"
    using inv by (auto simp: success_inv_def intro: subset_mset.order_trans)
  have "over (handed_over \<circ> fst) (p_conns p) \<subseteq># over (asked_for S \<circ> fst) (p_conns p)"
    using inv run_asked by (intro over_mono) (auto simp: entries_ok_def)
  then have asked: "mset (adapter_log p) \<subseteq># over (asked_for S \<circ> fst) (p_conns p)"
    using inv by (auto simp: submit_inv_def intro: subset_mset.order_trans dest: mset_subset_eq_add_left [THEN subset_mset.order_trans])
  have "hex_transaction raw" if "raw \<in> set (adapter_log p)" for raw
    using mset_subset_eqD [OF asked, of raw] that by (auto simp: in_over dest: asked_for_hex)
  with succ asked show ?thesis by (simp add: list_all_iff)
qed

theorem process_accounts_for_transactions_witness:
  "\<exists>p. tx_step\<^sup>*\<^sup>* tx_init p \<and> over (succeeded \<circ> fst) (p_conns p) = {#''00ff''#} \<and> adapter_log p = [''00ff'']
     \<and> mset (adapter_log p) \<subseteq># over (asked_for tx_serde \<circ> fst) (p_conns p)"
  using process_accounts_for_transactions [OF tx_reaches_answer [unfolded tx_init_def]] tx_reaches_answer
  by (intro exI [of _ "tx_proc tx_answered NoCall 8 tx_budget True 0 0 {#} [''00ff'']"])
    (simp add: tx_proc_def over_def tx_answered_succeeded)

text \<open>
  C17: the process-wide limits hold over all connections. In every schedule the calls that have
  a slot are at most the configured number, the transactions in the adapter have together at
  most the payload budget of bytes, and the free permits are exactly what is left of both, so
  that no permit is lost or counted twice, whichever connections are cancelled when.
\<close>

theorem process_within_limits:
  assumes "semaphore_laws X" "proc_steps X W S limits (proc_start X W limit budget) p"
  shows "size (calls (limiter_of p)) \<le> unat (broadcast_limit_get limit)
    \<and> sum_mset (image_mset adapter_bytes (calls (limiter_of p))) \<le> unat budget
    \<and> sem_available X (requests (p_limiter p)) = unat (broadcast_limit_get limit) - size (calls (limiter_of p))
    \<and> sem_available X (payload_bytes (p_limiter p))
        = unat budget - sum_mset (image_mset adapter_bytes (calls (limiter_of p)))"
  using limited_inv_account [OF limiter_inv_reachable [OF assms(2,1)]]
  by (auto simp: limiter_of_def)

theorem process_within_limits_witness:
  "\<exists>p. tx_step\<^sup>*\<^sup>* tx_init p \<and> calls (limiter_of p) = {#InAdapter ''00ff''#}
     \<and> sum_mset (image_mset adapter_bytes (calls (limiter_of p))) \<le> tx_budget"
  using process_within_limits [OF counter_semaphore_laws tx_reaches_adapter [unfolded tx_init_def]] tx_reaches_adapter
  by (intro exI [of _ "tx_proc tx_waiting (InAdapterCall ''00ff'') 7 (tx_budget - 4) True 1 1 {#} [''00ff'']"])
    (simp add: tx_proc_def limiter_of_def over_def)

text \<open>
  C18: after shutdown began the process comes to rest. Once the gate is closed it stays closed,
  and what the adapter is given later are only the calls that had been admitted and were still
  on their way to it; once the counter of active calls is zero as well, the adapter is never
  called again, whatever the connections do.
\<close>

theorem closed_process_comes_to_rest:
  assumes "proc_steps X W S limits (proc_start X W limit budget) p"
    and "\<not> is_accepting (p_gate p)" "proc_steps X W S limits p q"
  shows "\<not> is_accepting (p_gate q)
    \<and> mset (adapter_log q) \<subseteq># mset (adapter_log p) + over (to_adapter \<circ> snd) (p_conns p)
    \<and> (active_calls (p_gate p) = 0 \<longrightarrow> adapter_log q = adapter_log p)"
proof -
  have later: "mset (adapter_log q) \<subseteq># mset (adapter_log p) + over (to_adapter \<circ> snd) (p_conns p)"
    using owed_steps [OF assms(3,2)] by (auto simp: owed_def dest: mset_subset_eq_add_left [THEN subset_mset.order_trans])
  then show ?thesis using closed_idle_log [OF assms(1,2) _ assms(3)] closed_process [OF assms(3,2)] by blast
qed

theorem closed_process_comes_to_rest_witness:
  "\<exists>p q. tx_step\<^sup>*\<^sup>* p q \<and> \<not> is_accepting (p_gate q) \<and> adapter_log p = [] \<and> adapter_log q = [''00ff'']
     \<and> mset (adapter_log q) \<subseteq># mset (adapter_log p) + over (to_adapter \<circ> snd) (p_conns p)"
  using closed_process_comes_to_rest [OF tx_reaches_closed [unfolded tx_init_def] _ r_into_rtranclp [where r = tx_step, OF tx_submits]]
    tx_submits [of False "{#1#}"]
  by (intro exI [of _ "tx_proc tx_waiting (AtPayload ''00ff'') 7 tx_budget False 1 1 {#1#} []"]
      exI [of _ "tx_proc tx_waiting (InAdapterCall ''00ff'') 7 (tx_budget - 4) False 1 1 {#1#} [''00ff'']"])
    (auto simp: tx_proc_def is_accepting_def)

text \<open>
  C19: with a validated configuration the byte budget never refuses a broadcast. In every
  schedule of all connections, a call that got its slot gets its bytes: transactions are no
  longer than frames, and the configuration admits only as many slots as frames of the largest
  size fit in the budget. So the number of concurrent broadcasts is the only limit a wallet can
  meet.
\<close>

theorem process_budget_suffices:
  assumes "config_try_from cli = Inr cfg" "semaphore_laws X" "serde_strings_fit S"
    and "proc_steps X W S (task_limits cfg)
      (proc_start X W (max_concurrent_broadcasts cfg) MAX_CONFIGURABLE_IN_FLIGHT_BROADCAST_BYTES) p"
    and "(c, AtPayload raw) \<in> set (p_conns p)"
  shows "acquire_payload X (permits raw) (p_limiter p) \<noteq> None"
proof -
  note cfg = config_try_from_bounded [OF assms(1)]
  have "HoldsRequest raw \<in># calls (limiter_of p)"
    using assms(5) by (force simp: limiter_of_def in_over)
  moreover have "\<forall>k \<in># calls (limiter_of p). length (raw_of k) \<le> unat (max_frame_bytes cfg)"
    using process_transactions_fit [OF assms(3) task_limits_usable [OF cfg], of p] reachable_account [OF assms(4)]
    by (simp add: task_limits_def)
  ultimately have "acquire_payload X (permits raw) (relay (limiter_of p)) \<noteq> None"
    by (intro budget_suffices [OF cfg assms(2) limiter_inv_reachable [OF assms(4,2)]])
  then show ?thesis by (simp add: limiter_of_def)
qed

theorem process_budget_suffices_witness:
  "\<exists>p. tx_step\<^sup>*\<^sup>* tx_init p \<and> p_conns p = [(tx_waiting, AtPayload ''00ff'')]
     \<and> acquire_payload counter_semaphore (permits ''00ff'') (p_limiter p) \<noteq> None"
  using process_budget_suffices [OF cli_defaults_config counter_semaphore_laws tx_serde_fit
      tx_reaches_payload [unfolded tx_init_def demo_config_def]] tx_reaches_payload
  by (intro exI [of _ "tx_proc tx_waiting (AtPayload ''00ff'') 7 tx_budget True 1 1 {#} []"])
    (simp add: tx_proc_def)

end
