(* ===== verification/System_Props.thy ===== *)
theory System_Props
  imports System Process_Props
begin

text \<open>The properties of the whole program, with a concrete run as their witness.\<close>

subsection \<open>A concrete system\<close>

text \<open>
  A wallet connects and hangs up; its connection ends and is joined; then the process is
  interrupted and drains.
\<close>

abbreviation demo_sys_step :: "(nat, usize) sys \<Rightarrow> (nat, usize) sys \<Rightarrow> bool" where
  "demo_sys_step \<equiv> sys_step counter_semaphore cell_watch demo_serde demo_config"

definition idle_start :: conn where
  "idle_start = proxy_streams_start \<lparr>incoming = [], finish = Eof\<rparr> \<lparr>incoming = [], finish = Eof\<rparr>"

definition hang_up_events :: "conn_event list" where
  "hang_up_events = [ClientPoll, Select ClientTask, Cancel UpstreamTask, SupervisorPoll, WriterPoll,
     WriterWritten None, SupervisorPoll]"

definition hung_up :: conn where
  "hung_up = the (conn_run demo_serde (task_limits demo_config) hang_up_events idle_start)"

lemma hung_up_run: "conn_run demo_serde (task_limits demo_config) hang_up_events idle_start = Some hung_up"
  and hung_up_done: "s_pc hung_up = SDone" and idle_start_busy: "\<not> all_finished idle_start"
  by code_simp+

lemma lift_sys_run:
  assumes "conn_run S (task_limits cfg) es c = Some c'" "list_all (\<lambda>e. outside_call e st \<and> told (srv s) e) es"
    and "i < length (p_conns (prc s))" "p_conns (prc s) ! i = (c, st)"
  shows "sys_steps X W S cfg s (s\<lparr>prc := (prc s)\<lparr>p_conns := (p_conns (prc s))[i := (c', st)]\<rparr>\<rparr>)"
  using assms
proof (induction es arbitrary: c s)
  case Nil
  then have "(p_conns (prc s))[i := (c', st)] = p_conns (prc s)"
    by (metis conn_run.simps(1) list_update_id option.inject)
  then show ?case by simp
next
  case (Cons e es)
  then obtain d where d: "conn_step S (task_limits cfg) e c = Some d" "conn_run S (task_limits cfg) es d = Some c'"
    by (auto split: option.splits)
  let ?s = "s\<lparr>prc := (prc s)\<lparr>p_conns := (p_conns (prc s))[i := (d, st)]\<rparr>\<rparr>"
  have "sys_step X W S cfg s ?s"
    using sys_step.connection_works [OF Cons.prems(3,4) _ _ d(1)] Cons.prems(2) by simp
  moreover have "sys_steps X W S cfg ?s (s\<lparr>prc := (prc s)\<lparr>p_conns := (p_conns (prc s))[i := (c', st)]\<rparr>\<rparr>)"
    using Cons.IH [OF d(2), of ?s] Cons.prems by simp
  ultimately show ?case by (rule converse_rtranclp_into_rtranclp)
qed

definition demo_srv :: "server_phase \<Rightarrow> nat \<Rightarrow> conn_task multiset \<Rightarrow> bool \<Rightarrow> bool \<Rightarrow> nat \<Rightarrow> nat \<Rightarrow> nat server" where
  "demo_srv ph slots tasks ready told_all n m = \<lparr>phase = ph, connection_slots = slots, connections = tasks,
     shutdown_ready = ready, shutdown_sent = told_all, drain_nanos = 0, accepted_count = n, joined_count = m\<rparr>"

definition demo_prc :: "(conn \<times> call_stage) list \<Rightarrow> bool \<Rightarrow> usize multiset \<Rightarrow> (nat, usize) proc" where
  "demo_prc cs acc stops = \<lparr>p_conns = cs, p_limiter = \<lparr>requests = 8, payload_bytes = tx_budget\<rparr>,
     p_gate = \<lparr>drain = \<lparr>accepting = acc, active = 0\<rparr>, active_watch = 0\<rparr>, p_stops = stops, adapter_log = []\<rparr>"

definition demo_sys :: "nat server \<Rightarrow> (nat, usize) proc \<Rightarrow> signal_pc \<Rightarrow> nat list \<Rightarrow> (nat, usize) sys" where
  "demo_sys s p pc ls = \<lparr>srv = s, prc = p, sig = pc, live = ls\<rparr>"

lemma demo_sys_start:
  "sys_start counter_semaphore cell_watch demo_config None
     = demo_sys (demo_srv Serving 128 {#} False False 0 0) (demo_prc [] True {#}) AwaitSignal []"
  by (simp add: sys_start_def serve_start_def proc_start_def draining_new_def with_payload_budget_def
      counter_semaphore_def cell_watch_def demo_config_def config_of_cli_def cli_defaults_def config_consts
      demo_sys_def demo_srv_def demo_prc_def)

lemmas demo_sys_defs = demo_sys_def demo_srv_def demo_prc_def serve_select_def take_slot_def task_step_def
  drop_slots_def counter_semaphore_def drain_step_join_def report_def

definition demo_live :: "(nat, usize) sys" where
  "demo_live = demo_sys (demo_srv Serving 127 {#Proxying#} False False 1 0) (demo_prc [(idle_start, NoCall)] True {#})
     AwaitSignal [0]"

lemma demo_turn:
  assumes "server_step counter_semaphore demo_config e s = Some t" "listener_event demo_config e" "ls = []"
  shows "demo_sys_step (demo_sys s p pc ls) (demo_sys t p pc [])"
proof -
  have "after_turn t (demo_sys s p pc []) = demo_sys t p pc []" by (simp add: demo_sys_def after_turn_def)
  then show ?thesis
    using sys_step.listener_turn [OF assms(2), of counter_semaphore "demo_sys s p pc []" t cell_watch demo_serde] assms(1,3)
    by (simp add: demo_sys_def)
qed

lemma demo_connect: "task_connect demo_config (\<lambda>target. After (from_secs 2) True)"
  by (simp add: task_connect_def demo_config_def config_of_cli_def cli_defaults_def from_secs_def
      less_eq_duration_def)

lemma demo_live_steps:
  "demo_sys_step\<^sup>*\<^sup>* (sys_start counter_semaphore cell_watch demo_config None) demo_live"
proof -
  let ?S0 = "demo_srv Serving 128 {#} False False 0 0" and ?S1 = "demo_srv Serving 127 {#Connecting#} False False 1 0"
  let ?p0 = "demo_prc [] True {#}"
  have "demo_sys_step (demo_sys ?S0 ?p0 AwaitSignal []) (demo_sys ?S1 ?p0 AwaitSignal [])"
    by (rule demo_turn [of "Turn (AcceptArm None)"]) (simp_all add: demo_sys_defs)
  moreover have "demo_sys_step (demo_sys ?S1 ?p0 AwaitSignal []) demo_live"
    using sys_step.upstream_connected [OF demo_connect, of counter_semaphore "demo_sys ?S1 ?p0 AwaitSignal []"
        "demo_srv Serving 127 {#Proxying#} False False 1 0" cell_watch demo_serde
        "\<lparr>incoming = [], finish = Eof\<rparr>" "\<lparr>incoming = [], finish = Eof\<rparr>"] demo_connect
    by (simp add: demo_sys_defs demo_live_def idle_start_def)
  ultimately show ?thesis unfolding demo_sys_start by (meson r_into_rtranclp rtranclp.rtrancl_into_rtrancl)
qed

definition demo_drained :: "(nat, usize) sys" where
  "demo_drained = demo_sys (demo_srv (Returned (Inr \<lparr>all_connections_drained = True\<rparr>)) 128 {#} True True 1 1)
     (demo_prc [(hung_up, NoCall)] False {#}) SignalDone []"

lemma demo_drained_steps: "demo_sys_step\<^sup>*\<^sup>* demo_live demo_drained"
proof -
  let ?p = "demo_prc [(hung_up, NoCall)]"
  let ?P = "demo_srv Serving 127 {#Proxying#} False False 1 0" and ?E = "demo_srv Serving 128 {#Ended#} False False 1 0"
  let ?J = "\<lambda>r. demo_srv Serving 128 {#} r False 1 1" and ?D = "demo_srv DrainingConnections 128 {#} True True 1 1"
  have "demo_sys_step\<^sup>*\<^sup>* demo_live (demo_sys ?P (?p True {#}) AwaitSignal [0])"
    using lift_sys_run [OF hung_up_run, of NoCall demo_live 0 counter_semaphore cell_watch]
    by (simp add: demo_live_def demo_sys_def demo_prc_def hang_up_events_def)
  moreover have "demo_sys_step (demo_sys ?P (?p True {#}) AwaitSignal [0]) (demo_sys ?E (?p True {#}) AwaitSignal [])"
    using sys_step.proxy_returned [of 0 "demo_sys ?P (?p True {#}) AwaitSignal [0]" counter_semaphore demo_config ?E
        cell_watch demo_serde] hung_up_done
    by (simp add: demo_sys_defs)
  moreover have "demo_sys_step (demo_sys ?E (?p True {#}) AwaitSignal []) (demo_sys (?J False) (?p True {#}) AwaitSignal [])"
    by (rule demo_turn [of "Turn (JoinArm Ended)"]) (simp_all add: demo_sys_defs)
  moreover have "demo_sys_step (demo_sys (?J False) (?p True {#}) AwaitSignal []) (demo_sys (?J False) (?p True {#}) BeginShutdown [])"
    using sys_step.ctrl_c [of "demo_sys (?J False) (?p True {#}) AwaitSignal []"] by (simp add: demo_sys_def)
  moreover have "demo_sys_step (demo_sys (?J False) (?p True {#}) BeginShutdown []) (demo_sys (?J False) (?p False {#0#}) (PublishShutdown 0) [])"
    using sys_step.close_gate [of "demo_sys (?J False) (?p True {#}) BeginShutdown []"]
    by (simp add: demo_sys_def demo_prc_def stop_accepting_def)
  moreover have "demo_sys_step (demo_sys (?J False) (?p False {#0#}) (PublishShutdown 0) []) (demo_sys (?J False) (?p False {#}) SendShutdown [])"
    using sys_step.publish_gate [of "demo_sys (?J False) (?p False {#0#}) (PublishShutdown 0) []" 0 counter_semaphore cell_watch]
    by (simp add: demo_sys_def demo_prc_def publish_def cell_watch_def)
  moreover have "demo_sys_step (demo_sys (?J False) (?p False {#}) SendShutdown []) (demo_sys (?J True) (?p False {#}) SignalDone [])"
    using sys_step.send_shutdown [of "demo_sys (?J False) (?p False {#}) SendShutdown []"]
    by (simp add: demo_sys_def demo_srv_def)
  moreover have "demo_sys_step (demo_sys (?J True) (?p False {#}) SignalDone []) (demo_sys ?D (?p False {#}) SignalDone [])"
    by (rule demo_turn [of "Turn ShutdownArm"]) (simp_all add: demo_sys_defs)
  moreover have "demo_sys_step (demo_sys ?D (?p False {#}) SignalDone []) demo_drained"
    unfolding demo_drained_def by (rule demo_turn [of "Join None"]) (simp_all add: demo_sys_defs)
  ultimately show ?thesis by (meson converse_rtranclp_into_rtranclp rtranclp.rtrancl_refl rtranclp_trans)
qed

lemma demo_reach:
  "sys_reach counter_semaphore cell_watch demo_serde demo_config demo_live"
  "sys_reach counter_semaphore cell_watch demo_serde demo_config demo_drained"
  using demo_live_steps sys_reach_step [OF _ demo_drained_steps] unfolding sys_reach_def by blast+

subsection \<open>Properties of the system\<close>

text \<open>
  C6: a drained shutdown leaves nothing behind. When the program has returned a report that says
  all connections were drained, the gate is closed, every task of every connection ever accepted
  is finished, no call is in the relay and all its permits are free; and whatever is scheduled
  afterwards, no transaction is given to the adapter any more.
\<close>

theorem drained_leaves_nothing:
  assumes "sys_reach X W S cfg s" "semaphore_laws X"
    and "phase (srv s) = Returned (Inr rep)" "all_connections_drained rep"
  shows "\<not> is_accepting (p_gate (prc s)) \<and> active_calls (p_gate (prc s)) = 0
    \<and> (\<forall>(c, st) \<in> set (p_conns (prc s)). all_finished c \<and> call_over st)
    \<and> sem_available X (requests (p_limiter (prc s))) = unat (broadcast_limit_get (max_concurrent_broadcasts cfg))
    \<and> sem_available X (payload_bytes (p_limiter (prc s))) = unat MAX_CONFIGURABLE_IN_FLIGHT_BROADCAST_BYTES
    \<and> (\<forall>t. sys_steps X W S cfg s t \<longrightarrow> adapter_log (prc t) = adapter_log (prc s))"
proof -
  note proc = sys_reach_proc [OF assms(1)] and fin = drained_idle [OF assms(1,3,4)]
  have ready: "shutdown_ready (srv s)"
    using sys_reach_ok(2) [OF assms(1)] assms(3) by (simp add: tasks_inv_def account_inv_def)
  then have closed: "\<not> is_accepting (p_gate (prc s))" by (rule sys_reach_gate [OF assms(1)])
  have idle: "active_calls (p_gate (prc s)) = 0" "calls (limiter_of (prc s)) = {#}"
    using idle_relay [OF assms(1)] fin by auto
  have permits: "sem_available X (requests (p_limiter (prc s))) = unat (broadcast_limit_get (max_concurrent_broadcasts cfg))"
    "sem_available X (payload_bytes (p_limiter (prc s))) = unat MAX_CONFIGURABLE_IN_FLIGHT_BROADCAST_BYTES"
    using limited_inv_account [OF limiter_inv_reachable [OF proc assms(2)]] idle(2) by (simp_all add: limiter_of_def)
  have "\<forall>t. sys_steps X W S cfg s t \<longrightarrow> adapter_log (prc t) = adapter_log (prc s)"
    using closed_idle_log [OF proc closed idle(1)] process_sim.steps_simulate [OF _ sys_reach_ok(1) [OF assms(1)]]
    by blast
  with closed idle(1) fin permits show ?thesis by (intro conjI)
qed

theorem drained_leaves_nothing_witness:
  "phase (srv demo_drained) = Returned (Inr \<lparr>all_connections_drained = True\<rparr>)
   \<and> length (p_conns (prc demo_drained)) = 1
   \<and> list_all (\<lambda>(c, st). all_finished c \<and> call_over st) (p_conns (prc demo_drained))"
proof -
  have phase: "phase (srv demo_drained) = Returned (Inr \<lparr>all_connections_drained = True\<rparr>)"
    "length (p_conns (prc demo_drained)) = 1"
    by (simp_all add: demo_drained_def demo_sys_def demo_srv_def demo_prc_def)
  moreover have "\<forall>(c, st) \<in> set (p_conns (prc demo_drained)). all_finished c \<and> call_over st"
    by (rule drained_leaves_nothing [OF demo_reach(2) counter_semaphore_laws phase(1),
          THEN conjunct2, THEN conjunct2, THEN conjunct1]) simp
  ultimately show ?thesis by (simp add: list_all_iff)
qed

text \<open>
  C8: the resources of the program are bounded. In every state that is reached without a
  connection task having broken or having been cancelled, the connections with an unfinished
  task are at most \<open>max_connections\<close>; together they have at most \<open>max_connections\<close> times
  \<open>max_pending_requests\<close> requests pending and 32 times \<open>max_connections\<close> frames queued.
\<close>

theorem system_within_bounds:
  assumes "semaphore_laws X" "sys_reach X W S cfg s" "\<not> disturbed (srv s)"
  shows "length (at_work s) \<le> unat (max_connections cfg)
    \<and> sum_list (map (\<lambda>c. length (pending_table c)) (at_work s))
        \<le> unat (max_connections cfg) * unat (pending_limit_get (max_pending_requests cfg))
    \<and> sum_list (map (\<lambda>c. length (channel c)) (at_work s)) \<le> unat (max_connections cfg) * 32"
proof -
  note few = at_work_bounded [OF assms]
  have "sum_list (map f (at_work s)) \<le> unat (max_connections cfg) * k"
    if "\<And>c. c \<in> set (at_work s) \<Longrightarrow> f c \<le> k" for f k
    using le_trans [OF sum_list_le_length [of "at_work s" f k, OF that] mult_le_mono1 [OF few]] .
  note total = this
  have "length (pending_table c) \<le> unat (pending_limit_get (max_pending_requests cfg))"
    "length (channel c) \<le> 32" if "c \<in> set (at_work s)" for c
    using run_buffers [OF at_work_run [OF assms(2) that]] by (simp_all add: task_limits_def CHANNEL_FRAMES_def)
  from total [OF this(1)] total [OF this(2)] few show ?thesis by (intro conjI)
qed

theorem system_within_bounds_witness:
  "at_work demo_live = [idle_start] \<and> length (at_work demo_live) \<le> unat (max_connections demo_config)"
proof -
  have "\<not> disturbed (srv demo_live)" "at_work demo_live = [idle_start]"
    using idle_start_busy by (simp_all add: disturbed_def at_work_def demo_live_def demo_sys_def demo_srv_def demo_prc_def)
  with system_within_bounds [OF counter_semaphore_laws demo_reach(1)] show ?thesis by simp
qed



text \<open>
  C10: the state of the program is always well formed. The places of the live tasks are distinct
  connections, one for each task of the listener that proxies; each table of pending requests
  has distinct identifiers and keeps to its limit, each channel to its capacity; a call in the
  relay belongs to the submission its client task waits for, and none is left when the task is
  finished; the supervisors agree with the tasks they supervise; no client task has panicked;
  and the counter of the gate is the number of calls admitted.
\<close>

theorem system_state_well_formed:
  assumes "sys_reach X W S cfg s" "serde_total S"
  shows "distinct (live s) \<and> (\<forall>i \<in> set (live s). i < length (p_conns (prc s)))
    \<and> length (live s) = count (connections (srv s)) Proxying
    \<and> (\<forall>(c, st) \<in> set (p_conns (prc s)).
          table_wf (pending_table c) \<and> length (pending_table c) \<le> unat (pending_limit_get (max_pending_requests cfg))
          \<and> length (channel c) \<le> 32 \<and> call_matches (c, st) \<and> supervised (s_pc c) c \<and> c_pc c \<noteq> CPanicked)
    \<and> unat (active_calls (p_gate (prc s))) = size (admitted (drain_tasks (gate_of (prc s))))"
proof -
  have "table_wf (pending_table c) \<and> length (pending_table c) \<le> unat (pending_limit_get (max_pending_requests cfg))
      \<and> length (channel c) \<le> 32 \<and> call_matches (c, st) \<and> supervised (s_pc c) c \<and> c_pc c \<noteq> CPanicked"
    if "(c, st) \<in> set (p_conns (prc s))" for c st
  proof -
    note entry = sys_entry [OF assms(1) that]
    obtain cs us es where run: "conn_run S (task_limits cfg) es (proxy_streams_start cs us) = Some c"
      using entry(1) by (auto simp: is_run_def)
    show ?thesis
      using run_invs(4,8) [OF run] run_invs(10) [OF run assms(2)] run_buffers(1) [OF entry(1)] entry(2)
      by (simp add: table_inv_def task_limits_def CHANNEL_FRAMES_def)
  qed
  moreover have "unat (active_calls (p_gate (prc s))) = size (admitted (drain_tasks (gate_of (prc s))))"
    using gate_inv_reachable [OF sys_reach_proc [OF assms(1)]]
    by (simp add: drain_inv_def counts_def gate_of_def active_calls_def)
  ultimately show ?thesis using sys_reach_ok [OF assms(1)] by (auto simp: live_ok_def tasks_inv_def)
qed

theorem system_state_well_formed_witness:
  "live demo_live = [0] \<and> count (connections (srv demo_live)) Proxying = 1 \<and> distinct (live demo_live)"
  using system_state_well_formed [OF demo_reach(1) demo_serde_ok(1)]
  by (simp add: demo_live_def demo_sys_def demo_srv_def)

end
