(* ===== verification/Unit_Tests.thy ===== *)
theory Unit_Tests
  imports Config Limited Draining
begin

text \<open>
  The unit tests that the sources carry (\<open>mod tests\<close> in \<open>src/endpoint.rs\<close>, \<open>src/config.rs\<close>,
  \<open>src/relay/limited.rs\<close> and \<open>src/relay/draining.rs\<close>), as executable predicates over the model:
  each test is the conjunction of its assertions, and each is shown to pass. They relate the
  definitions to the behaviour that the authors fixed by example. A relay that blocks until it
  is released is an inner call that runs what the test does meanwhile. The tests of
  \<open>src/protocol.rs\<close> and \<open>src/proxy.rs\<close>, over JSON texts, are in \<open>Proxy_Tests\<close>.
\<close>

definition is_ok :: "'e + 'a \<Rightarrow> bool" where
  "is_ok r = (case r of Inl e \<Rightarrow> False | Inr x \<Rightarrow> True)"

definition failed :: "relay_outcome \<Rightarrow> bool" where
  "failed r = (case r of Inl e \<Rightarrow> e = relay_error_failed | Inr x \<Rightarrow> False)"

subsection \<open>Endpoints\<close>

definition parses_dns_ipv6_onion_and_punycode_endpoints :: bool where
  "parses_dns_ipv6_onion_and_punycode_endpoints =
     ((case from_str ''relay.example:50001'' of
         Inl e \<Rightarrow> False
       | Inr dns \<Rightarrow> host dns = ''relay.example'' \<and> port dns = 50001)
      \<and> (case from_str ''[::1]:50001'' of
           Inl e \<Rightarrow> False
         | Inr ipv6 \<Rightarrow> host ipv6 = ''::1'' \<and> endpoint_string ipv6 = ''[::1]:50001'')
      \<and> is_ok (from_str ''examplehiddenservice.onion:50001'')
      \<and> is_ok (from_str ''xn--bcher-kva.example.:50001''))"

definition rejects_ambiguous_or_zero_port_endpoints :: bool where
  "rejects_ambiguous_or_zero_port_endpoints =
     list_all (\<lambda>endpoint. is_err (from_str endpoint))
       [''relay.example'', ''relay.example:0'', ''127.0.0.1:0'', ''[::1]:0'', '' relay.example:50001'',
        ''::1:50001'']"

definition rejects_urls_userinfo_paths_unicode_and_malformed_dns :: bool where
  "rejects_urls_userinfo_paths_unicode_and_malformed_dns =
     list_all (\<lambda>endpoint. is_err (from_str endpoint))
       [''https://relay.example:50001'', ''user@relay.example:50001'', ''relay.example/path:50001'',
        ''[relay.example]:50001'', ''.relay.example:50001'', ''relay..example:50001'',
        ''-relay.example:50001'', ''relay-.example:50001'', ''relay_example:50001'',
        ''b'' @ [CHR 0xC3, CHR 0xBC] @ ''cher.example:50001'']"

definition recognizes_obvious_target_aliases_without_dns :: bool where
  "recognizes_obvious_target_aliases_without_dns =
     (let dns = endpoint_new ''Relay.Example.'' 50001
      in same_target dns (endpoint_new ''relay.example'' 50001)
         \<and> same_target (endpoint_new ''localhost'' 50001) (endpoint_new ''127.0.0.1'' 50001)
         \<and> same_target (endpoint_new ''127.0.0.2'' 50001) (endpoint_new ''::1'' 50001)
         \<and> \<not> same_target dns (endpoint_new ''relay.example'' 50002)
         \<and> \<not> same_target dns (endpoint_new ''other.example'' 50001))"

definition detects_obvious_listener_loops :: bool where
  "detects_obvious_listener_loops =
     (let loopback = SocketV4 (Ipv4 127 0 0 1) 50003; wildcard = SocketV4 (Ipv4 0 0 0 0) 50003
      in could_target_listener (endpoint_new ''localhost'' 50003) loopback
         \<and> could_target_listener (endpoint_new ''127.0.0.1'' 50003) loopback
         \<and> could_target_listener (endpoint_new ''::1'' 50003) loopback
         \<and> could_target_listener (endpoint_new ''127.0.0.1'' 50003) wildcard
         \<and> \<not> could_target_listener (endpoint_new ''relay.example'' 50003) loopback
         \<and> \<not> could_target_listener (endpoint_new ''127.0.0.1'' 50001) loopback)"

lemma endpoint_forms_test: "parses_dns_ipv6_onion_and_punycode_endpoints"
  by code_simp

lemma zero_port_test: "rejects_ambiguous_or_zero_port_endpoints"
  by code_simp

lemma malformed_test: "rejects_urls_userinfo_paths_unicode_and_malformed_dns"
  by code_simp

lemma aliases_test: "recognizes_obvious_target_aliases_without_dns"
  by code_simp

lemma loops_test: "detects_obvious_listener_loops"
  by code_simp

subsection \<open>Configuration\<close>

definition test_cli :: cli where
  "test_cli =
     \<lparr>cli_check_config = False,
      cli_listen = SocketV4 (Ipv4 127 0 0 1) 50003,
      cli_upstream = endpoint_new ''127.0.0.1'' 50001,
      cli_relay_mode = Reject,
      cli_relay_endpoint = None,
      cli_socks5_proxy = SocketV4 (Ipv4 127 0 0 1) 9050,
      cli_max_connections = DEFAULT_MAX_CONNECTIONS,
      cli_max_concurrent_broadcasts = DEFAULT_MAX_CONCURRENT_BROADCASTS,
      cli_max_pending_requests = DEFAULT_MAX_PENDING_REQUESTS,
      cli_max_frame_bytes = DEFAULT_MAX_FRAME_BYTES,
      cli_connect_timeout_seconds = 10,
      cli_relay_timeout_seconds = 30,
      cli_allow_non_loopback_listen = False\<rparr>"

definition rejects_non_loopback_by_default :: bool where
  "rejects_non_loopback_by_default =
     is_err (config_try_from (test_cli\<lparr>cli_listen := SocketV4 (Ipv4 0 0 0 0) 50003\<rparr>))"

definition rejects_zero_port_and_programmatically_invalid_endpoints :: bool where
  "rejects_zero_port_and_programmatically_invalid_endpoints =
     (is_err (config_try_from (test_cli\<lparr>cli_listen := SocketV4 (Ipv4 127 0 0 1) 0\<rparr>))
      \<and> is_err (config_try_from (test_cli\<lparr>cli_upstream := endpoint_new ''127.0.0.1'' 0\<rparr>))
      \<and> is_err (config_try_from (test_cli\<lparr>cli_upstream := endpoint_new ''relay.example/path'' 50001\<rparr>))
      \<and> is_err (config_try_from (test_cli\<lparr>cli_socks5_proxy := SocketV4 (Ipv4 127 0 0 1) 0\<rparr>)))"

definition rejects_query_upstream_listener_loop :: bool where
  "rejects_query_upstream_listener_loop =
     is_err (config_try_from
       (test_cli\<lparr>cli_upstream := endpoint_new ''localhost'' (socket_port (cli_listen test_cli))\<rparr>))"

definition requires_relay_endpoint_for_socks_mode :: bool where
  "requires_relay_endpoint_for_socks_mode =
     is_err (config_try_from (test_cli\<lparr>cli_relay_mode := SocksElectrum\<rparr>))"

definition requires_query_and_relay_endpoint_separation :: bool where
  "requires_query_and_relay_endpoint_separation =
     is_err (config_try_from
       (test_cli\<lparr>cli_relay_mode := SocksElectrum, cli_relay_endpoint := Some (endpoint_new ''localhost'' 50001)\<rparr>))"

definition rejects_relay_or_socks_listener_loops :: bool where
  "rejects_relay_or_socks_listener_loops =
     (is_err (config_try_from
        (test_cli\<lparr>cli_relay_mode := SocksElectrum, cli_relay_endpoint := Some (endpoint_new ''127.0.0.1'' 50003)\<rparr>))
      \<and> is_err (config_try_from
        (test_cli\<lparr>cli_relay_mode := SocksElectrum, cli_relay_endpoint := Some (endpoint_new ''relay.example'' 50001),
                  cli_socks5_proxy := cli_listen test_cli\<rparr>)))"

definition accepts_distinct_socks_relay_configuration :: bool where
  "accepts_distinct_socks_relay_configuration =
     is_ok (config_try_from
       (test_cli\<lparr>cli_relay_mode := SocksElectrum, cli_relay_endpoint := Some (endpoint_new ''relay.example'' 50001)\<rparr>))"

definition bounds_resource_configuration :: bool where
  "bounds_resource_configuration =
     (is_err (config_try_from (test_cli\<lparr>cli_max_connections := 0\<rparr>))
      \<and> is_err (config_try_from (test_cli\<lparr>cli_max_connections := MAX_CONFIGURABLE_CONNECTIONS + 1\<rparr>))
      \<and> is_err (config_try_from (test_cli\<lparr>cli_max_concurrent_broadcasts := 0\<rparr>))
      \<and> is_err (config_try_from
          (test_cli\<lparr>cli_max_concurrent_broadcasts := MAX_CONFIGURABLE_CONCURRENT_BROADCASTS + 1\<rparr>))
      \<and> is_err (config_try_from (test_cli\<lparr>cli_max_concurrent_broadcasts := 65\<rparr>))
      \<and> is_err (config_try_from (test_cli\<lparr>cli_max_pending_requests := 0\<rparr>))
      \<and> is_err (config_try_from (test_cli\<lparr>cli_max_pending_requests := MAX_CONFIGURABLE_PENDING_REQUESTS + 1\<rparr>)))"

definition validated_limits_cannot_exceed_hard_ceilings :: bool where
  "validated_limits_cannot_exceed_hard_ceilings =
     (is_err (broadcast_limit_try_from 0)
      \<and> map_sum id broadcast_limit_get (broadcast_limit_try_from DEFAULT_MAX_CONCURRENT_BROADCASTS)
          = Inr DEFAULT_MAX_CONCURRENT_BROADCASTS
      \<and> is_err (broadcast_limit_try_from (MAX_CONFIGURABLE_CONCURRENT_BROADCASTS + 1))
      \<and> is_err (pending_limit_try_from 0)
      \<and> map_sum id pending_limit_get (pending_limit_try_from DEFAULT_MAX_PENDING_REQUESTS)
          = Inr DEFAULT_MAX_PENDING_REQUESTS
      \<and> is_err (pending_limit_try_from (MAX_CONFIGURABLE_PENDING_REQUESTS + 1)))"

lemma is_err_config:
  "is_err (config_try_from cli) \<longleftrightarrow> \<not> (endpoints_accepted cli \<and> limits_accepted cli \<and> socks_accepted cli)"
  using config_try_from_Inr [of cli] by (cases "config_try_from cli") (auto simp: is_err_def)

lemma path_is_no_host: "\<not> valid_endpoint (endpoint_new ''relay.example/path'' 50001)"
  unfolding valid_endpoint_def by code_simp

lemma non_loopback_test: "rejects_non_loopback_by_default"
  by code_simp

lemma listener_loop_test: "rejects_query_upstream_listener_loop"
  by code_simp

lemma socks_needs_endpoint_test: "requires_relay_endpoint_for_socks_mode"
  by code_simp

lemma separation_test: "requires_query_and_relay_endpoint_separation"
  by code_simp

lemma relay_loops_test: "rejects_relay_or_socks_listener_loops"
  by code_simp

lemma distinct_relay_test: "accepts_distinct_socks_relay_configuration"
  by code_simp

lemma hard_ceilings_test: "validated_limits_cannot_exceed_hard_ceilings"
  by code_simp

lemma invalid_endpoints_test: "rejects_zero_port_and_programmatically_invalid_endpoints"
  using path_is_no_host
  by (simp add: rejects_zero_port_and_programmatically_invalid_endpoints_def is_err_config endpoints_accepted_def
      valid_endpoint_def endpoint_validate_def endpoint_new_def)

lemma resource_bounds_test: "bounds_resource_configuration"
  by (simp add: bounds_resource_configuration_def is_err_config limits_accepted_def test_cli_def config_consts)

subsection \<open>The limiter\<close>

text \<open>
  The first call is in the inner relay while the second one is made. The inner relay of the
  second call would succeed, so that its failure shows that it was not called; the first call
  succeeds only when the second one failed.
\<close>

definition second_is_refused :: "nat limited_relay \<Rightarrow> bool" where
  "second_is_refused lim =
     (case limited_broadcast counter_semaphore
             (\<lambda>raw st. case limited_broadcast counter_semaphore (\<lambda>raw st. (Inr (concat (replicate 32 ''11'')), st)) ''11'' st of
                (second, st') \<Rightarrow>
                  (if failed second then Inr (concat (replicate 32 ''11'')) else Inl relay_error_failed, st'))
             ''00'' lim of
        (first, st) \<Rightarrow> is_ok first)"

definition rejects_excess_broadcast_without_calling_inner_relay :: bool where
  "rejects_excess_broadcast_without_calling_inner_relay =
     (case broadcast_limit_try_from 1 of
        Inl e \<Rightarrow> False
      | Inr limit \<Rightarrow> second_is_refused (limited_new counter_semaphore limit))"

definition rejects_aggregate_payload_overload_without_calling_inner_relay :: bool where
  "rejects_aggregate_payload_overload_without_calling_inner_relay =
     (case broadcast_limit_try_from 2 of
        Inl e \<Rightarrow> False
      | Inr limit \<Rightarrow> second_is_refused (with_payload_budget counter_semaphore limit 2))"

lemma limiter_tests_pass:
  "rejects_excess_broadcast_without_calling_inner_relay"
  "rejects_aggregate_payload_overload_without_calling_inner_relay"
  by code_simp+

subsection \<open>The gate\<close>

definition shutdown_rejects_new_calls_without_invoking_inner_relay :: bool where
  "shutdown_rejects_new_calls_without_invoking_inner_relay =
     (case begin_shutdown cell_watch (draining_new cell_watch) of
        (n, sh) \<Rightarrow>
          n = 0 \<and> \<not> is_accepting sh
          \<and> (case draining_broadcast cell_watch (\<lambda>raw sh. (Inr (concat (replicate 32 ''11'')), sh)) ''00'' sh of
               (outcome, sh') \<Rightarrow> failed outcome \<and> wait_for_idle cell_watch sh' []))"

definition shutdown_waits_for_an_already_admitted_call :: bool where
  "shutdown_waits_for_an_already_admitted_call =
     (case draining_broadcast cell_watch
             (\<lambda>raw sh. case begin_shutdown cell_watch sh of
                (n, sh') \<Rightarrow>
                  (if n = 1 \<and> active_calls sh' = 1 \<and> \<not> wait_for_idle cell_watch sh' []
                   then Inr (concat (replicate 32 ''22'')) else Inl relay_error_failed, sh'))
             ''00'' (draining_new cell_watch) of
        (outcome, sh) \<Rightarrow> wait_for_idle cell_watch sh [] \<and> is_ok outcome \<and> active_calls sh = 0)"

text \<open>The stuck call is aborted: its guard is dropped without an outcome.\<close>

definition bounded_wait_expires_for_a_stuck_relay :: bool where
  "bounded_wait_expires_for_a_stuck_relay =
     (case enter_call (draining_new cell_watch) of
        Inl e \<Rightarrow> False
      | Inr (n, sh) \<Rightarrow>
          (let sh1 = snd (begin_shutdown cell_watch (publish cell_watch n sh));
               sh2 = drop_active_call cell_watch sh1
           in \<not> wait_for_idle cell_watch sh1 [] \<and> active_calls sh1 = 1 \<and> wait_for_idle cell_watch sh2 []))"

lemma gate_tests_pass:
  "shutdown_rejects_new_calls_without_invoking_inner_relay"
  "shutdown_waits_for_an_already_admitted_call"
  "bounded_wait_expires_for_a_stuck_relay"
  by code_simp+

end
