(* ===== verification/Proxy_Tests.thy ===== *)
theory Proxy_Tests
  imports Unit_Tests Connection_Props
begin

text \<open>
  The unit tests of \<open>src/protocol.rs\<close> and \<open>src/proxy.rs\<close> over the model. What \<open>serde_json\<close>
  makes of the JSON texts in them is an instance of the parameter: a table gives the parsed form
  of each text of a test, and no form for the texts that are not a request.
  A test of the proxy is a run of a connection: the list of events follows the order that the
  test imposes by awaiting what it reads, and the assertions are checked at the places where the
  test has them. What the wallet reads is \<open>to_client\<close>, what the upstream reads \<open>to_upstream\<close>, and
  the calls of the relay are \<open>relayed\<close>.
\<close>

subsection \<open>The texts\<close>

definition line :: "rstr \<Rightarrow> bytes" where
  "line s = s @ [newline]"

definition query_text :: "nat \<Rightarrow> rstr" where
  \<open>query_text n = ''{"id":'' @ radix_string 10 n @ '',"method":"server.version","params":[]}''\<close>

definition broadcast_text :: "nat \<Rightarrow> rstr" where
  \<open>broadcast_text n =
     ''{"id":'' @ radix_string 10 n @ '',"method":"blockchain.transaction.broadcast","params":["00aa"]}''\<close>

definition string_params_text :: rstr where
  \<open>string_params_text = ''{"id":"wallet","method":"blockchain.transaction.broadcast","params":"00aa"}''\<close>

definition bad_hex_text :: rstr where
  \<open>bad_hex_text = ''{"id":1,"method":"blockchain.transaction.broadcast","params":["not-hex"]}''\<close>

definition two_methods_text :: rstr where
  \<open>two_methods_text =
     ''{"id":1,"method":"server.version","method":"blockchain.transaction.broadcast","params":["00"]}''\<close>

definition string_id_text :: "rstr \<Rightarrow> rstr" where
  \<open>string_id_text s = ''{"id":"'' @ s @ ''","method":"server.version","params":[]}''\<close>

definition maximum_text :: rstr where
  \<open>maximum_text = ''{"id":18446744073709551615,"method":"server.version","params":[]}''\<close>

definition above_u64_text :: rstr where
  \<open>above_u64_text = ''{"id":18446744073709551616,"method":"server.version","params":[]}''\<close>

definition fractional_text :: rstr where
  \<open>fractional_text = ''{"id":1.5,"method":"server.version","params":[]}''\<close>

definition result_text :: "nat \<Rightarrow> rstr \<Rightarrow> rstr" where
  \<open>result_text n r = ''{"id":'' @ radix_string 10 n @ '',"result":'' @ r @ ''}''\<close>

definition above_u64_result_text :: rstr where
  \<open>above_u64_result_text = ''{"id":18446744073709551616,"result":true}''\<close>

text \<open>The doubles that the two inexact numbers are read as, by their bits.\<close>

definition two_to_64 :: "value" where "two_to_64 = Number (Float 0x43F0000000000000)"
definition one_and_a_half :: "value" where "one_and_a_half = Number (Float 0x3FF8000000000000)"

definition oversized_id :: rstr where
  "oversized_id = replicate (MAX_REQUEST_ID_STRING_BYTES + 1) CHR ''a''"

definition version_request :: "value \<Rightarrow> request" where
  "version_request ident = \<lparr>req_id = Some ident, req_method = ''server.version'', req_params = Some (Array [])\<rparr>"

definition broadcast_request :: "value \<Rightarrow> value \<Rightarrow> request" where
  "broadcast_request ident params =
     \<lparr>req_id = Some ident, req_method = ''blockchain.transaction.broadcast'', req_params = Some params\<rparr>"

definition query_form :: "nat \<Rightarrow> rstr \<times> request" where
  "query_form n = (query_text n, version_request (num (int n)))"

definition broadcast_form :: "nat \<Rightarrow> rstr \<times> request" where
  "broadcast_form n = (broadcast_text n, broadcast_request (num (int n)) (Array [String ''00aa'']))"

definition above_u64_form :: "rstr \<times> request" where
  "above_u64_form = (above_u64_text, version_request two_to_64)"

definition upstream_pair :: rstr where
  \<open>upstream_pair = ''["upstream","1.4"]''\<close>

definition injected_id :: rstr where
  \<open>injected_id = ''"'' @ concat (replicate 32 ''22'') @ ''"''\<close>

definition response_to :: "value \<Rightarrow> upstream_envelope" where
  "response_to ident = \<lparr>env_id = Some ident, env_method = None\<rparr>"

subsection \<open>The protocol\<close>

text \<open>\<open>classify\<close> on a text whose parsed form is given, or on a text that is not a request.\<close>

definition classified :: "rstr \<times> request \<Rightarrow> protocol_error + client_frame" where
  "classified f = classify (printer_serde [f] [] []) (fst f)"

definition classified_unparsed :: "rstr \<Rightarrow> protocol_error + client_frame" where
  "classified_unparsed t = classify (printer_serde [] [] []) t"

definition intercepts_array_and_legacy_string_broadcast_params :: bool where
  "intercepts_array_and_legacy_string_broadcast_params =
     (classified (broadcast_form 7) = Inr (Broadcast (num 7) ''00aa'')
      \<and> classified (string_params_text, broadcast_request (String ''wallet'') (String ''00aa'')) = Inr (Broadcast (String ''wallet'') ''00aa''))"

definition passes_through_non_broadcast_requests :: bool where
  "passes_through_non_broadcast_requests =
     (classified (query_form 1) = Inr (Passthrough (Some (num 1))))"

definition rejects_batches_duplicate_methods_and_bad_hex :: bool where
  "rejects_batches_duplicate_methods_and_bad_hex =
     (is_err (classified_unparsed ''[]'') \<and> is_err (classified_unparsed two_methods_text)
      \<and> is_err (classified (bad_hex_text, broadcast_request (num 1) (Array [String ''not-hex'']))))"

definition rejects_oversized_string_request_ids :: bool where
  "rejects_oversized_string_request_ids = is_err (classified (string_id_text oversized_id, version_request (String oversized_id)))"

definition accepts_exact_integer_request_ids_and_rejects_inexact_numbers :: bool where
  "accepts_exact_integer_request_ids_and_rejects_inexact_numbers =
     (classified (maximum_text, version_request (num 18446744073709551615)) = Inr (Passthrough (Some (num 18446744073709551615)))
      \<and> is_err (classified above_u64_form) \<and> is_err (classified (fractional_text, version_request one_and_a_half)))"

lemma protocol_tests_pass:
  "intercepts_array_and_legacy_string_broadcast_params
   \<and> passes_through_non_broadcast_requests
   \<and> rejects_batches_duplicate_methods_and_bad_hex
   \<and> rejects_oversized_string_request_ids
   \<and> accepts_exact_integer_request_ids_and_rejects_inexact_numbers"
  by code_simp

subsection \<open>The proxy\<close>

text \<open>\<open>proxy_streams\<close>: a connection whose shutdown sender stays alive and silent.\<close>

definition proxy_streams :: "(rstr \<times> request) list \<Rightarrow> (rstr \<times> upstream_envelope) list \<Rightarrow> conn" where
  "proxy_streams wallet upstream_texts =
     proxy_streams_start \<lparr>incoming = concat (map (line \<circ> fst) wallet), finish = Eof\<rparr>
       \<lparr>incoming = concat (map (line \<circ> fst) upstream_texts), finish = Eof\<rparr>"

definition test_limits :: "usize \<Rightarrow> connection_limits" where
  "test_limits pending = \<lparr>limit_frame_bytes = 4096, limit_pending = pending\<rparr>"

text \<open>The frames of the texts that a test sends, with their parsed forms.\<close>

definition frames_of :: "(rstr \<times> 'a) list \<Rightarrow> (bytes \<times> 'a) list" where
  "frames_of = map (\<lambda>(t, x). (line t, x))"

definition test_serde :: "(rstr \<times> request) list \<Rightarrow> (rstr \<times> upstream_envelope) list \<Rightarrow> serde" where
  "test_serde asked answered = printer_serde (frames_of asked) (frames_of answered) []"

text \<open>What the tests let the connection do, step by step.\<close>

definition to_query :: "conn_event list" where
  "to_query = [ClientPoll, ClientPoll, ClientWritten None]"

definition to_relay :: "conn_event list" where
  "to_relay = [ClientPoll, ClientPoll, ClientPoll]"

definition wallet_reads :: "conn_event list" where
  "wallet_reads = [WriterPoll, WriterWritten None]"

definition from_upstream :: "conn_event list" where
  "from_upstream = [UpstreamPoll, UpstreamPoll, UpstreamPoll] @ wallet_reads"

definition from_relay :: "relay_outcome \<Rightarrow> conn_event list" where
  "from_relay outcome = [RelayReturns outcome, ClientPoll, ClientPoll] @ wallet_reads"

definition client_closes :: "conn_event list" where
  "client_closes = [Select ClientTask, Cancel UpstreamTask, SupervisorPoll, WriterPoll, WriterWritten None, SupervisorPoll]"

definition upstream_closes :: "conn_event list" where
  "upstream_closes = [Select UpstreamTask, Cancel ClientTask, SupervisorPoll, WriterPoll, WriterWritten None, SupervisorPoll]"

fun passes :: "serde \<Rightarrow> connection_limits \<Rightarrow> (conn_event list \<times> (conn \<Rightarrow> bool)) list \<Rightarrow> conn \<Rightarrow> bool" where
  "passes S limits [] c = True"
| "passes S limits ((es, assertion) # rest) c =
     (case conn_run S limits es c of
        None \<Rightarrow> False
      | Some c' \<Rightarrow> assertion c' \<and> passes S limits rest c')"

definition proxy_test ::
  "usize \<Rightarrow> (rstr \<times> request) list \<Rightarrow> (rstr \<times> upstream_envelope) list \<Rightarrow> (conn_event list \<times> (conn \<Rightarrow> bool)) list \<Rightarrow> bool" where
  "proxy_test pending wallet upstream_texts script =
     passes (test_serde wallet upstream_texts) (test_limits pending) script (proxy_streams wallet upstream_texts)"

fun starts :: "rstr \<Rightarrow> rstr \<Rightarrow> bool" where
  "starts [] t = True"
| "starts (x # s) [] = False"
| "starts (x # s) (y # t) = (x = y \<and> starts s t)"

fun contains :: "rstr \<Rightarrow> rstr \<Rightarrow> bool" where
  "contains s [] = (s = [])"
| "contains s (x # t) = (starts s (x # t) \<or> contains s t)"

definition mock_id :: rstr where
  "mock_id = concat (replicate 32 ''11'')"

definition forwards_queries_but_intercepts_broadcasts :: bool where
  "forwards_queries_but_intercepts_broadcasts =
     proxy_test 16 [query_form 1, broadcast_form 2] [(result_text 1 upstream_pair, response_to (num 1))]
       [(to_query, \<lambda>c. to_upstream c = line (query_text 1)),
        (from_upstream, \<lambda>c. contains ''upstream'' (to_client c)),
        (to_relay, \<lambda>c. True),
        (from_relay (Inr mock_id), \<lambda>c. contains mock_id (to_client c) \<and> length (relayed c) = 1
           \<and> to_upstream c = line (query_text 1))]"

definition default_relay_rejects_without_leaking_to_upstream :: bool where
  "default_relay_rejects_without_leaking_to_upstream =
     proxy_test 16 [broadcast_form 9] []
       [(to_relay, \<lambda>c. True),
        (from_relay (reject_broadcast ''00aa''),
           \<lambda>c. contains ''private broadcasting is not configured'' (to_client c) \<and> to_upstream c = [])]"

definition drops_upstream_response_that_collides_with_intercepted_broadcast :: bool where
  "drops_upstream_response_that_collides_with_intercepted_broadcast =
     proxy_test 16 [broadcast_form 12] [(result_text 12 injected_id, response_to (num 12))]
       [(to_relay, \<lambda>c. True),
        ([UpstreamPoll, UpstreamPoll], \<lambda>c. True),
        (from_relay (Inr mock_id),
           \<lambda>c. contains mock_id (to_client c) \<and> \<not> contains (concat (replicate 32 ''22'')) (to_client c))]"

definition closes_connection_when_pending_request_window_is_full :: bool where
  "closes_connection_when_pending_request_window_is_full =
     proxy_test 2 [query_form 1, query_form 2, query_form 3] []
       [(to_query, \<lambda>c. to_upstream c = line (query_text 1)),
        (to_query, \<lambda>c. to_upstream c = line (query_text 1) @ line (query_text 2)),
        ([ClientPoll, ClientPoll, ClientPoll] @ wallet_reads,
           \<lambda>c. contains (''\"id\":3'') (to_client c) \<and> contains (''\"code\":-32092'') (to_client c)),
        (client_closes, \<lambda>c. to_upstream c = line (query_text 1) @ line (query_text 2) \<and> s_pc c = SDone)]"

definition does_not_relay_broadcast_when_pending_request_window_is_full :: bool where
  "does_not_relay_broadcast_when_pending_request_window_is_full =
     proxy_test 1 [query_form 1, broadcast_form 2] []
       [(to_query, \<lambda>c. to_upstream c = line (query_text 1)),
        ([ClientPoll, ClientPoll, ClientPoll] @ wallet_reads,
           \<lambda>c. contains (''\"id\":2'') (to_client c) \<and> contains (''\"code\":-32092'') (to_client c) \<and> relayed c = []),
        (client_closes, \<lambda>c. to_upstream c = line (query_text 1) \<and> s_pc c = SDone)]"

definition correlated_response_releases_pending_request_slot :: bool where
  "correlated_response_releases_pending_request_slot =
     proxy_test 1 [query_form 1, query_form 2] [(result_text 1 ''true'', response_to (num 1)), (result_text 2 ''true'', response_to (num 2))]
       [(to_query, \<lambda>c. to_upstream c = line (query_text 1)),
        (from_upstream, \<lambda>c. contains (''\"id\":1'') (to_client c) \<and> contains (''\"result\":true'') (to_client c)),
        (to_query, \<lambda>c. to_upstream c = line (query_text 1) @ line (query_text 2)),
        (from_upstream, \<lambda>c. to_client c = line (result_text 1 ''true'') @ line (result_text 2 ''true''))]"

definition rejects_inexact_numeric_id_before_forwarding_to_upstream :: bool where
  "rejects_inexact_numeric_id_before_forwarding_to_upstream =
     proxy_test 16 [above_u64_form] []
       [([ClientPoll, ClientPoll] @ wallet_reads, \<lambda>c. contains (''\"code\":-32600'') (to_client c)),
        (client_closes, \<lambda>c. to_upstream c = [] \<and> s_pc c = SDone)]"

definition closes_cleanly_on_inexact_numeric_id_from_upstream :: bool where
  "closes_cleanly_on_inexact_numeric_id_from_upstream =
     proxy_test 16 [query_form 1] [(above_u64_result_text, response_to two_to_64)]
       [(to_query, \<lambda>c. to_upstream c = line (query_text 1)),
        ([UpstreamPoll], \<lambda>c. True),
        (upstream_closes, \<lambda>c. to_client c = [] \<and> s_pc c = SDone)]"

lemma proxy_interception_tests_pass:
  "forwards_queries_but_intercepts_broadcasts
   \<and> default_relay_rejects_without_leaking_to_upstream
   \<and> drops_upstream_response_that_collides_with_intercepted_broadcast"
  by code_simp

lemma proxy_window_tests_pass:
  "closes_connection_when_pending_request_window_is_full
   \<and> does_not_relay_broadcast_when_pending_request_window_is_full
   \<and> correlated_response_releases_pending_request_slot"
  by code_simp

lemma proxy_inexact_id_tests_pass:
  "rejects_inexact_numeric_id_before_forwarding_to_upstream
   \<and> closes_cleanly_on_inexact_numeric_id_from_upstream"
  by code_simp

end
