(* ===== verification/Spec2Isabelle.thy ===== *)
theory Spec2Isabelle
  imports Connection_Term Connection_Close System_Props Proxy_Tests
begin

text \<open>
  \<^bold>\<open>electrum-private-relay\<close>: a verification development of the program under \<open>src/\<close>.

  The program stands between an Electrum wallet and an Electrum server (the query upstream). It
  passes requests through unchanged, except for \<open>blockchain.transaction.broadcast\<close>, which it
  takes out of the stream and gives to a private relay: an adapter that rejects it, or one that
  sends it over a SOCKS5 proxy to another server. Its promise is that a transaction never
  reaches the upstream, that a failed private broadcast is never retried in public, and that
  responses are correlated with requests.

  \<^bold>\<open>The parts and their theories.\<close>

  \<^item> \<open>Prelude_Rust\<close>, \<open>Rust_Str\<close>, \<open>Net_Addr\<close>: what the sources use of the language and its
    standard library: fixed-width integers with checked operations, results, durations and
    timeouts; UTF-8 strings with trimming, splitting and numbers; IP and socket addresses with
    their printers and parsers, which are shown to be inverse.
  \<^item> \<open>Endpoint\<close> (\<open>src/endpoint.rs\<close>): the endpoint record, \<open>from_str\<close>, \<open>validate_host\<close>,
    \<open>same_target\<close>, \<open>could_target_listener\<close>. Parsing inverts printing on every valid
    endpoint, up to the spelling of an IP address; what it returns is described by a declarative
    grammar, and every DNS host of the grammar and every bracketed IPv6 address is accepted; the
    two comparisons decide equality of a normal form of targets.
  \<^item> \<open>Config\<close> (\<open>src/config.rs\<close>): the command line, the limits and \<open>config_try_from\<close>, with
    its accepted command lines characterised exactly.
  \<^item> \<open>Protocol\<close> (\<open>src/protocol.rs\<close>): \<open>classify\<close> and all responses. The package
    \<open>serde_json\<close> is the record \<open>serde\<close> of the calls made to it.
  \<^item> \<open>Framing\<close> (\<open>read_frame\<close> in \<open>src/proxy.rs\<close>): newline frames over a byte stream.
  \<^item> \<open>Admission\<close>: the contract shared by the four counters of the program (locale
    \<open>admission\<close>), and the semaphore and watch channel of \<open>tokio\<close> as parameters with laws.
  \<^item> \<open>Relay\<close> (\<open>src/relay/mod.rs\<close>, \<open>reject.rs\<close>): errors, the contract of an adapter (locale
    \<open>relay_contract\<close>), the rejecting adapter.
  \<^item> \<open>Limited\<close> (\<open>src/relay/limited.rs\<close>), \<open>Draining\<close> (\<open>src/relay/draining.rs\<close>): the
    limiter and the shutdown gate, one call and every interleaving of calls.
  \<^item> \<open>Socks_Electrum\<close> (\<open>src/relay/socks_electrum.rs\<close>): one broadcast as a function of what
    the network answers and how long it takes.
  \<^item> \<open>Pending\<close> (\<open>reserve_request\<close>, \<open>request_id_key\<close> in \<open>src/proxy.rs\<close>): the table of
    requests in flight, over the locale \<open>hash_map\<close>.
  \<^item> \<open>Connection\<close> (\<open>proxy_streams_until\<close> and its three tasks in \<open>src/proxy.rs\<close>): a state
    with a program counter per task and an executable step per event; \<open>Connection_Inv\<close> its
    invariants, \<open>Connection_Props\<close> its properties, \<open>Connection_Term\<close> termination and
    progress, \<open>Connection_Close\<close> what a clean close has delivered.
  \<^item> \<open>Simulation\<close>, \<open>Ledger\<close>: refinement; the sequential specification of a connection and the
    proof that every schedule of its tasks refines it.
  \<^item> \<open>Server\<close> (\<open>serve_until\<close> in \<open>src/proxy.rs\<close>): the listener, connection slots, bounded
    shutdown and its report.
  \<^item> \<open>Main_Run\<close> (\<open>src/main.rs\<close>): the start of the process, the relay stack, the signal task.
  \<^item> \<open>Process\<close>, \<open>Process_Props\<close>: the parts together; any number of connections whose calls
    pass the gate, the limiter and the adapter of \<open>src/main.rs\<close>, one step for each operation on
    shared state. The process refines the limiter and the gate (interpretations
    \<open>limiter_sim\<close> and \<open>gate_sim\<close>), and each of its connections is a run of \<open>Connection\<close>.
  \<^item> \<open>System\<close>, \<open>System_Props\<close>: the whole program; the listener, the connections with their relay
    calls and the signal task as \<open>run\<close> puts them together. A connection task that reached the
    upstream is a connection of the process, and ends when its supervisor is done. The system
    projects to the listener, the process and the signal task (interpretations \<open>listener_sim\<close>,
    \<open>process_sim\<close>, \<open>signal_sim\<close>), which carries their invariants over. \<open>stop_step\<close> is the part
    of it that is left when every connection task hangs.
  \<^item> \<open>Unit_Tests\<close>: the unit tests in \<open>endpoint.rs\<close>, \<open>config.rs\<close>, \<open>limited.rs\<close> and
    \<open>draining.rs\<close> as predicates over the model, each of which holds; \<open>Proxy_Tests\<close>: those in
    \<open>protocol.rs\<close> and \<open>proxy.rs\<close>, a test of the proxy being a run of a connection.
  \<^item> this theory: properties of the relay route that span components.

  \<^bold>\<open>How state and effects are modelled.\<close> A struct is a record, an enum a datatype, \<open>usize\<close> a
  word of 64 bits, a string its list of UTF-8 bytes. A result is a sum with the error on the
  left; a panic of \<open>expect\<close> is the value \<open>None\<close> or a state of its own. Asynchronous code is
  divided at its \<open>await\<close> points: an operation runs a task from one such point to the next, and
  what the network, the relay, the clock and the scheduler decide is an event. A run is a list
  of events (connection, server) or a chain of an inductive step relation (limiter, gate, signal
  task, process, system), so that a theorem on all runs is one on every schedule. Critical sections under a mutex
  are single steps; the publication of the counter in \<open>draining.rs\<close>, which happens after the
  mutex is released, is a step of its own.

  \<^bold>\<open>Bounds.\<close> No function has fuel: all are total. The loops of the tasks end because every
  event decreases the measure \<open>work\<close> of \<open>Connection_Term\<close>, which bounds a run by the length of
  the two streams. The only constant of the model that is not a named constant of the sources is
  the capacity 32 of the channel (\<open>CHANNEL_FRAMES\<close>).

  \<^bold>\<open>Parameters.\<close> \<open>serde_json\<close> (totality of serialisation, one line per value, identifiers read
  back, strings no longer than the text they are in), \<open>tokio::sync\<close> (semaphore and watch laws), \<open>tokio_socks\<close> and sockets (their answers
  and times). Concrete instances are in \<open>Protocol\<close> (\<open>printer_serde\<close>) and \<open>Admission\<close>
  (\<open>counter_semaphore\<close>, \<open>cell_watch\<close>); the witnesses use them.

  \<^bold>\<open>What the properties show.\<close> For a connection, in every schedule: the upstream receives exactly
  the passthrough requests, byte for byte; the relay receives each broadcast once; each is
  answered with its own identifier and outcome; an upstream response is forwarded only for a
  request that awaits it, and never for a broadcast; the table is bounded; no input makes a task
  panic; a bad frame or shutdown stops the intake; the wallet reads whole lines; the connection
  always ends with all tasks finished, and a clean close has delivered every response. For the
  process: over all connections together, the adapter is given only transactions that wallets
  asked for and no more often, and a success is reported only for one it was given; the limits on connections, concurrent
  broadcasts and bytes hold in every interleaving, and the byte budget of a valid configuration
  never refuses a call; after shutdown began only calls admitted before reach the
  adapter; an interrupt stops the whole program by its deadline even when every other task
  hangs; its state is well formed and its resources are bounded; when it reports that all
  connections were drained, every task is finished, no call is left in the relay and none ever
  enters it again; only a validated configuration is served; the
  private route differs from the public one; shutdown is bounded and reported truthfully. The
  theorems \<open>wait_for_idle_late_zero\<close> and \<open>socks_outlasts_shutdown_deadline\<close> state where the code
  differs from its documentation.

  \<^bold>\<open>Not modelled.\<close> The parsing of the command line (\<open>clap\<close>) and of JSON text (\<open>serde_json\<close>):
  third-party code. Sockets, name resolution, TLS, Tor and the SOCKS5 handshake: outside the
  sources. Text printed by \<open>eprintln\<close> on a fatal error and the \<open>Debug\<close> output. \<open>tests/\<close>,
  \<open>fuzz/\<close>, the Python scripts and the packaging files: not part of the program. A client
  task that was aborted at the deadline runs on to its next \<open>await\<close> after \<open>serve_until\<close> has
  returned; the end of the runtime, which stops it, is not modelled. On an accept error the set of connection
  tasks is dropped without waiting for them; the model ends them with the return. A turn of the
  biased select is one step, so an arm does not become ready while the others are polled. A
  cancelled write has written nothing; a write that stopped in the middle is the event of a
  failed write. Fairness of the scheduler is not assumed anywhere: the progress theorems state what steps exist, not that they are taken.
\<close>

section \<open>Properties that span components\<close>

text \<open>The socks-electrum configuration the witnesses use.\<close>

definition demo_cli :: cli where
  "demo_cli = cli_defaults\<lparr>cli_relay_mode := SocksElectrum,
                           cli_relay_endpoint := Some \<lparr>host = ''relay.example'', port = 50001\<rparr>\<rparr>"

lemma demo_cli_config: "config_try_from demo_cli = Inr (config_of_cli demo_cli)"
  by code_simp

lemma connect_in_run:
  assumes "Connect proxy target \<in> set (run_actions (socks_broadcast S r env raw))"
  shows "proxy = sx_socks5_proxy r \<and> target = (host (sx_endpoint r), port (sx_endpoint r))"
proof -
  obtain n where n: "run_actions (socks_broadcast S r env raw) =
     take n ([Connect (sx_socks5_proxy r) (sx_target r)]
             @ (case relay_request S raw of
                  None \<Rightarrow> []
                | Some request \<Rightarrow> [WriteAll request, ReadLine (MAX_RELAY_RESPONSE_BYTES + 1)]))"
    using socks_broadcast_actions by blast
  from assms have "Connect proxy target \<in> set ([Connect (sx_socks5_proxy r) (sx_target r)]
             @ (case relay_request S raw of
                  None \<Rightarrow> []
                | Some request \<Rightarrow> [WriteAll request, ReadLine (MAX_RELAY_RESPONSE_BYTES + 1)]))"
    unfolding n by (rule in_set_takeD)
  then show ?thesis by (auto simp: sx_target_def split: option.splits)
qed

text \<open>
  C15: the private route is separate. When the process runs with the socks-electrum adapter,
  every connection any broadcast makes goes to the configured proxy and asks it for the
  configured relay endpoint, an endpoint that is neither the target of the query upstream nor
  the process's own listener.
\<close>

theorem private_route_is_separate:
  assumes "config_try_from cli = Inr cfg" "run_relay X W cfg = Some stack"
    and "stack_adapter stack = SocksAdapter r"
    and "Connect proxy target \<in> set (run_actions (socks_broadcast S r env raw))"
  shows "\<exists>e. relay_endpoint cfg = Some e \<and> proxy = socks5_proxy cfg \<and> target = (host e, port e)
    \<and> (port e, target_of e) \<noteq> (port (upstream cfg), target_of (upstream cfg))
    \<and> \<not> could_target_listener e (listen cfg)"
proof -
  have mode: "relay_mode cfg = SocksElectrum"
    and "map_option (\<lambda>e. SocksAdapter (socks_electrum_new (socks5_proxy cfg) e (relay_timeout cfg)))
           (relay_endpoint cfg) = Some (SocksAdapter r)"
    using assms(2,3) by (auto simp: run_relay_def run_adapter_def split: relay_mode.splits)
  then obtain e where e: "relay_endpoint cfg = Some e" "r = socks_electrum_new (socks5_proxy cfg) e (relay_timeout cfg)"
    by auto
  have "socks_accepted cli" "cfg = config_of_cli cli"
    using assms(1) by (auto simp: config_try_from_Inr)
  with mode e(1) have "(port e, target_of e) \<noteq> (port (upstream cfg), target_of (upstream cfg))"
    "\<not> could_target_listener e (listen cfg)"
    by (auto simp: socks_accepted_def config_of_cli_def)
  then show ?thesis
    using connect_in_run [OF assms(4)] e by (auto simp: socks_electrum_new_def)
qed

theorem private_route_is_separate_witness:
  "\<exists>stack r proxy target. run_relay counter_semaphore cell_watch (config_of_cli demo_cli) = Some stack
     \<and> stack_adapter stack = SocksAdapter r
     \<and> Connect proxy target \<in> set (run_actions (socks_broadcast slow_serde r (slow_env (from_secs 1)) ''00''))
     \<and> target = (''relay.example'', 50001)"
proof -
  let ?cfg = "config_of_cli demo_cli"
  let ?r = "socks_electrum_new (socks5_proxy ?cfg) \<lparr>host = ''relay.example'', port = 50001\<rparr> (relay_timeout ?cfg)"
  have cfg: "relay_mode ?cfg = SocksElectrum" "relay_endpoint ?cfg = Some \<lparr>host = ''relay.example'', port = 50001\<rparr>"
    by (simp_all add: config_of_cli_def demo_cli_def)
  then obtain stack where stack: "run_relay counter_semaphore cell_watch ?cfg = Some stack"
    "stack_adapter stack = SocksAdapter ?r"
    by (simp add: run_relay_def run_adapter_def)
  have conn: "Connect (sx_socks5_proxy ?r) (host (sx_endpoint ?r), port (sx_endpoint ?r))
      \<in> set (run_actions (socks_broadcast slow_serde ?r (slow_env (from_secs 1)) ''00''))"
    by (auto simp: socks_broadcast_def Let_def split: prod.splits option.splits sum.splits)
  from private_route_is_separate [OF demo_cli_config stack conn] cfg stack conn show ?thesis by auto
qed

text \<open>
  C20: what the relay stack of the process answers. A success is a transaction identifier that
  the adapter itself returned; in the reject mode no broadcast ever succeeds; and when the gate
  is closed or the limiter has no room, the answer is the failure error whatever the adapter
  would have answered.
\<close>

theorem relay_stack_outcome:
  assumes "run_relay X W cfg = Some start" "stack_adapter stack = stack_adapter start" "semaphore_laws X"
  shows "(stack_broadcast X W S stack env raw = Inr t \<longrightarrow>
        transaction_id t \<and> adapter_broadcast S (stack_adapter stack) env raw = Inr t \<and> relay_mode cfg \<noteq> Reject)
    \<and> (\<not> is_accepting (stack_gate stack) \<or> \<not> has_room X (stack_limiter stack) raw \<longrightarrow>
        stack_broadcast X W S stack env raw = Inl relay_error_failed)"
proof (intro conjI impI)
  assume success: "stack_broadcast X W S stack env raw = Inr t"
  then have passed: "adapter_broadcast S (stack_adapter stack) env raw = Inr t" by (rule stack_passes)
  show "transaction_id t"
    using stack.wrapped_shape [of X W S "stack_adapter stack" "(stack_limiter stack, stack_gate stack)" env raw t] success
    by (cases stack) simp
  show "adapter_broadcast S (stack_adapter stack) env raw = Inr t" by (rule passed)
  show "relay_mode cfg \<noteq> Reject"
    using passed assms(1,2) by (auto simp: run_relay_def run_adapter_def reject_broadcast_def)
next
  assume refused: "\<not> is_accepting (stack_gate stack) \<or> \<not> has_room X (stack_limiter stack) raw"
  have full: "fst (limited_broadcast X inner raw (stack_limiter stack)) = Inl relay_error_failed"
    if "\<not> has_room X (stack_limiter stack) raw" for inner
    using limited_broadcast_refused [OF assms(3) that] by fastforce
  show "stack_broadcast X W S stack env raw = Inl relay_error_failed"
  proof (cases "is_accepting (stack_gate stack)")
    case True
    with refused have "\<not> has_room X (stack_limiter stack) raw" by blast
    then show ?thesis
      by (auto simp: stack_broadcast_def draining_broadcast_def full enter_call_def try_bind_def ok_or_def
          split: sum.splits option.splits)
  qed (simp add: stack_broadcast_def draining_broadcast_closed)
qed

theorem relay_stack_outcome_witness:
  "\<exists>start. run_relay counter_semaphore cell_watch (config_of_cli cli_defaults) = Some start
     \<and> stack_broadcast counter_semaphore cell_watch slow_serde
         (start\<lparr>stack_limiter := \<lparr>requests = 0, payload_bytes = 10\<rparr>\<rparr>) (slow_env (from_secs 1)) ''00''
       = Inl relay_error_failed"
proof -
  obtain start where start: "run_relay counter_semaphore cell_watch (config_of_cli cli_defaults) = Some start"
    by (simp add: run_relay_def run_adapter_def config_of_cli_def cli_defaults_def)
  let ?stack = "start\<lparr>stack_limiter := \<lparr>requests = 0, payload_bytes = 10\<rparr>\<rparr>"
  have "stack_adapter ?stack = stack_adapter start" by simp
  from relay_stack_outcome [OF start this counter_semaphore_laws, of slow_serde "slow_env (from_secs 1)" "''00''"]
  have "stack_broadcast counter_semaphore cell_watch slow_serde ?stack (slow_env (from_secs 1)) ''00''
      = Inl relay_error_failed"
    by (simp add: has_room_def counter_semaphore_def)
  with start show ?thesis by blast
qed

end
